theory Spec2Isabelle
  imports Main "HOL-Library.FSet"
begin

section \<open>Smart PDF renamer: a shallow embedding of smart\_rename\_papers.py\<close>

text \<open>
  The program looks for a DOI in the first pages of a PDF, asks Crossref for the
  title, first author and publisher, falls back to the metadata embedded in the PDF
  and then to defaults, composes the file name "Publisher - Title - INITIALS.pdf"
  and renames the file without overwriting another one.

  Every function of the source that the properties below talk about is translated
  here under its own name. What the program reads from outside (the PDF library,
  the Crossref service, the directory) is an explicit argument of the model.
\<close>

subsection \<open>Characters and text\<close>

text \<open>
  A Python \<open>str\<close> is a sequence of code points, and \<open>len\<close> counts code points. The
  model uses \<^typ>\<open>string\<close>, one \<^typ>\<open>char\<close> for each code point, so it covers the
  texts whose code points are below 256 (Latin-1). The character classes below are
  Python's tables on that range:
  \<^item> \<open>str.isspace\<close>, which is also what \<open>\s\<close> matches and what \<open>strip()\<close> removes:
    U+0009..U+000D, U+001C..U+001F, U+0020, U+0085, U+00A0;
  \<^item> \<open>\d\<close>: the decimal digits, below 256 only \<open>0\<close>..\<open>9\<close>;
  \<^item> \<open>str.isalpha\<close>: the letters \<open>A\<close>..\<open>Z\<close>, \<open>a\<close>..\<open>z\<close>, U+00AA, U+00B5, U+00BA,
    U+00C0..U+00D6, U+00D8..U+00F6, U+00F8..U+00FF;
  \<^item> \<open>\w\<close>: \<open>str.isalnum\<close> or the underscore, that is the letters, the digits,
    U+00B2, U+00B3, U+00B9, U+00BC..U+00BE and \<open>_\<close>.
\<close>

definition code_point :: "char \<Rightarrow> nat" where
  "code_point c = of_char c"

definition is_space :: "char \<Rightarrow> bool" where
  "is_space c = (c \<in> set [CHR 0x09, CHR 0x0A, CHR 0x0B, CHR 0x0C, CHR 0x0D,
     CHR 0x1C, CHR 0x1D, CHR 0x1E, CHR 0x1F, CHR 0x20, CHR 0x85, CHR 0xA0])"

definition is_digit :: "char \<Rightarrow> bool" where
  "is_digit c = (48 \<le> code_point c \<and> code_point c \<le> 57)"

definition is_ascii_upper :: "char \<Rightarrow> bool" where
  "is_ascii_upper c = (65 \<le> code_point c \<and> code_point c \<le> 90)"

definition is_ascii_lower :: "char \<Rightarrow> bool" where
  "is_ascii_lower c = (97 \<le> code_point c \<and> code_point c \<le> 122)"

definition is_alpha :: "char \<Rightarrow> bool" where
  "is_alpha c = (is_ascii_upper c \<or> is_ascii_lower c
     \<or> code_point c = 170 \<or> code_point c = 181 \<or> code_point c = 186
     \<or> (192 \<le> code_point c \<and> code_point c \<le> 214)
     \<or> (216 \<le> code_point c \<and> code_point c \<le> 246)
     \<or> (248 \<le> code_point c \<and> code_point c \<le> 255))"

definition is_word :: "char \<Rightarrow> bool" where
  "is_word c = (is_alpha c \<or> is_digit c \<or> c = CHR ''_''
     \<or> code_point c = 178 \<or> code_point c = 179 \<or> code_point c = 185
     \<or> (188 \<le> code_point c \<and> code_point c \<le> 190))"

text \<open>
  \<open>str.upper\<close> of one character. U+00DF has the two-letter upper case \<open>SS\<close>. The
  upper-case forms of U+00B5 and U+00FF (U+039C and U+0178) lie outside the range
  of the model; these two characters are kept as they are. No property below
  depends on them.
\<close>

definition upper_char :: "char \<Rightarrow> string" where
  "upper_char c =
     (if is_ascii_lower c \<or> (224 \<le> code_point c \<and> code_point c \<le> 246) \<or> (248 \<le> code_point c \<and> code_point c \<le> 254)
      then [char_of (code_point c - 32)]
      else if code_point c = 223 then ''SS''
      else [c])"

definition upper :: "string \<Rightarrow> string" where
  "upper s = concat (map upper_char s)"

text \<open>\<open>s.strip()\<close>, \<open>s.rstrip()\<close> and \<open>s.rstrip(chars)\<close>.\<close>

definition rstrip_chars :: "string \<Rightarrow> string \<Rightarrow> string" where
  "rstrip_chars chars s = rev (dropWhile (\<lambda>c. c \<in> set chars) (rev s))"

definition rstrip :: "string \<Rightarrow> string" where
  "rstrip s = rev (dropWhile is_space (rev s))"

definition strip :: "string \<Rightarrow> string" where
  "strip s = rstrip (dropWhile is_space s)"

text \<open>\<open>text.replace(ch, new)\<close> for a one-character \<open>ch\<close>, and \<open>sep.join(parts)\<close>.\<close>

definition replace_char :: "char \<Rightarrow> string \<Rightarrow> string \<Rightarrow> string" where
  "replace_char ch new s = concat (map (\<lambda>c. if c = ch then new else [c]) s)"

fun join :: "string \<Rightarrow> string list \<Rightarrow> string" where
  "join sep [] = []"
| "join sep [x] = x"
| "join sep (x # y # ys) = x @ sep @ join sep (y # ys)"

text \<open>
  Python's truth value of an \<open>Optional[str]\<close>: \<open>None\<close> and the empty string are
  false. \<open>x or d\<close> is \<open>x\<close> when \<open>x\<close> is true and \<open>d\<close> otherwise.
\<close>

definition truthy :: "string option \<Rightarrow> bool" where
  "truthy x = (case x of None \<Rightarrow> False | Some s \<Rightarrow> s \<noteq> [])"

definition or_else :: "string option \<Rightarrow> string \<Rightarrow> string" where
  "or_else x d = (case x of None \<Rightarrow> d | Some s \<Rightarrow> if s = [] then d else s)"

text \<open>\<open>str(i)\<close> of a natural number, as the f-string \<open>f"{stem} ({i}){suf}"\<close> prints it.\<close>

definition digit_char :: "nat \<Rightarrow> char" where
  "digit_char d = ''0123456789'' ! d"

fun str_nat :: "nat \<Rightarrow> string" where
  "str_nat n = (if n < 10 then [digit_char n] else str_nat (n div 10) @ [digit_char (n mod 10)])"

declare str_nat.simps [simp del]

subsection \<open>Regular expressions\<close>

text \<open>
  The patterns of the program are sequences of greedy repetitions of a
  character class (a literal character is a class repeated once) and of the
  word boundary \<open>\b\<close>. \<open>Rep p lo hi\<close> is the class \<open>p\<close> repeated at least \<open>lo\<close> and at
  most \<open>hi\<close> times (\<open>None\<close>: no upper bound).

  \<open>match_at\<close> is Python's backtracking matcher on such a pattern: a repetition
  first takes as many characters as it can (at most \<open>hi\<close>) and gives them back one
  by one, down to \<open>lo\<close>, until the rest of the pattern matches. It returns the
  length of the match at the start of the text. \<open>prev\<close> is the character before the
  current position, which \<open>\b\<close> looks at.
\<close>

datatype item = Rep "char \<Rightarrow> bool" nat "nat option" | Word_Boundary

type_synonym pattern = "item list"

definition max_count :: "(char \<Rightarrow> bool) \<Rightarrow> nat option \<Rightarrow> string \<Rightarrow> nat" where
  "max_count p hi s =
     (case hi of None \<Rightarrow> length (takeWhile p s) | Some h \<Rightarrow> min h (length (takeWhile p s)))"

fun try_counts :: "(nat \<Rightarrow> nat option) \<Rightarrow> nat \<Rightarrow> nat \<Rightarrow> nat option" where
  "try_counts k lo 0 = (if lo = 0 then k 0 else None)"
| "try_counts k lo (Suc n) =
     (if Suc n < lo then None
      else (case k (Suc n) of Some r \<Rightarrow> Some r | None \<Rightarrow> try_counts k lo n))"

definition at_boundary :: "char option \<Rightarrow> string \<Rightarrow> bool" where
  "at_boundary prev s =
     ((case prev of None \<Rightarrow> False | Some c \<Rightarrow> is_word c)
        \<noteq> (case s of [] \<Rightarrow> False | c # _ \<Rightarrow> is_word c))"

definition last_char :: "char option \<Rightarrow> string \<Rightarrow> char option" where
  "last_char prev t = (if t = [] then prev else Some (last t))"

primrec match_at :: "pattern \<Rightarrow> char option \<Rightarrow> string \<Rightarrow> nat option" where
  "match_at [] prev s = Some 0"
| "match_at (it # its) prev s =
     (case it of
        Word_Boundary \<Rightarrow> (if at_boundary prev s then match_at its prev s else None)
      | Rep p lo hi \<Rightarrow>
          try_counts
            (\<lambda>n. map_option (\<lambda>m. n + m) (match_at its (last_char prev (take n s)) (drop n s)))
            lo (max_count p hi s))"

text \<open>
  \<open>pattern.search(text)\<close>: the leftmost position where the pattern matches, with
  the length of the match there.
\<close>

fun re_search :: "pattern \<Rightarrow> char option \<Rightarrow> string \<Rightarrow> (nat \<times> nat) option" where
  "re_search pat prev [] = map_option (Pair 0) (match_at pat prev [])"
| "re_search pat prev (c # cs) =
     (case match_at pat prev (c # cs) of
        Some n \<Rightarrow> Some (0, n)
      | None \<Rightarrow> map_option (\<lambda>(i, n). (Suc i, n)) (re_search pat (Some c) cs))"

text \<open>
  \<open>re.sub(pattern, repl, text)\<close> and \<open>re.split(pattern, text)\<close>, scanning from left
  to right over the matches that do not overlap. Every pattern of the program
  needs at least one character, so no match is empty.
\<close>

fun re_sub :: "pattern \<Rightarrow> string \<Rightarrow> char option \<Rightarrow> string \<Rightarrow> string" where
  "re_sub pat repl prev [] = []"
| "re_sub pat repl prev (c # cs) =
     (case match_at pat prev (c # cs) of
        Some (Suc n) \<Rightarrow> repl @ re_sub pat repl (last_char (Some c) (take n cs)) (drop n cs)
      | _ \<Rightarrow> c # re_sub pat repl (Some c) cs)"

fun re_split :: "pattern \<Rightarrow> char option \<Rightarrow> string \<Rightarrow> string \<Rightarrow> string list" where
  "re_split pat prev cur [] = [cur]"
| "re_split pat prev cur (c # cs) =
     (case match_at pat prev (c # cs) of
        Some (Suc n) \<Rightarrow> cur # re_split pat (last_char (Some c) (take n cs)) [] (drop n cs)
      | _ \<Rightarrow> re_split pat (Some c) (cur @ [c]) cs)"

definition lit :: "char \<Rightarrow> item" where
  "lit c = Rep (\<lambda>x. x = c) 1 (Some 1)"

definition lit_ignorecase :: "char \<Rightarrow> char \<Rightarrow> item" where
  "lit_ignorecase c d = Rep (\<lambda>x. x = c \<or> x = d) 1 (Some 1)"

subsection \<open>Utilities\<close>

text \<open>
  \<open>INVALID_CHARS = r'<>:"/\\|?*'\<close> is a raw string: it holds the backslash twice.
\<close>

definition INVALID_CHARS :: string where
  "INVALID_CHARS = ''<>:'' @ [CHR 0x22] @ ''/'' @ [CHR 0x5C, CHR 0x5C] @ ''|?*''"

definition REPLACEMENT :: string where
  "REPLACEMENT = '' ''"

text \<open>The pattern \<open>\s+\<close> of \<open>sanitize\<close>.\<close>

definition WHITESPACE_RUN :: pattern where
  "WHITESPACE_RUN = [Rep is_space 1 None]"

text \<open>
  The argument of \<open>sanitize\<close>: a string, \<open>None\<close>, or another object, which
  \<open>str(text)\<close> turns into a string (\<open>Other\<close> carries that string).
\<close>

datatype py_text = Str string | NoneText | Other string

definition sanitize :: "py_text \<Rightarrow> string" where
  "sanitize t =
     (let text = (case t of Str s \<Rightarrow> s | NoneText \<Rightarrow> [] | Other r \<Rightarrow> r);
          text = foldl (\<lambda>text ch. replace_char ch REPLACEMENT text) text INVALID_CHARS
      in strip (re_sub WHITESPACE_RUN '' '' None text))"

text \<open>
  \<open>truncate_filename\<close>. \<open>max_len\<close> is a Python int; \<open>name[:max_len]\<close> with a
  negative \<open>max_len\<close> drops that many characters from the end.
\<close>

definition slice_to :: "string \<Rightarrow> int \<Rightarrow> string" where
  "slice_to s m = (if 0 \<le> m then take (nat m) s else take (length s - nat (- m)) s)"

definition truncate_filename :: "string \<Rightarrow> int \<Rightarrow> string" where
  "truncate_filename name max_len =
     (if int (length name) \<le> max_len then name else rstrip (slice_to name max_len))"

text \<open>
  \<open>to_initials\<close>. The two patterns are
  \<open>\b[a-zA-Z0-9._%+-]+@[a-zA-Z0-9.-]+\.[A-Za-z]{2,}\b\<close> and, ignoring case,
  \<open>\bORCID\b[:\s]*\S+\<close>; the tokens are split at \<open>[\s\-]+\<close>.
\<close>

definition is_ascii_alnum :: "char \<Rightarrow> bool" where
  "is_ascii_alnum c = (is_ascii_lower c \<or> is_ascii_upper c \<or> is_digit c)"

definition EMAIL_PATTERN :: pattern where
  "EMAIL_PATTERN =
     [Word_Boundary,
      Rep (\<lambda>c. is_ascii_alnum c \<or> c \<in> set ''._%+-'') 1 None,
      lit (CHR ''@''),
      Rep (\<lambda>c. is_ascii_alnum c \<or> c \<in> set ''.-'') 1 None,
      lit (CHR ''.''),
      Rep (\<lambda>c. is_ascii_upper c \<or> is_ascii_lower c) 2 None,
      Word_Boundary]"

definition ORCID_PATTERN :: pattern where
  "ORCID_PATTERN =
     [Word_Boundary,
      lit_ignorecase (CHR ''O'') (CHR ''o''), lit_ignorecase (CHR ''R'') (CHR ''r''),
      lit_ignorecase (CHR ''C'') (CHR ''c''), lit_ignorecase (CHR ''I'') (CHR ''i''),
      lit_ignorecase (CHR ''D'') (CHR ''d''),
      Word_Boundary,
      Rep (\<lambda>c. c = CHR '':'' \<or> is_space c) 0 None,
      Rep (\<lambda>c. \<not> is_space c) 1 None]"

definition TOKEN_SEPARATOR :: pattern where
  "TOKEN_SEPARATOR = [Rep (\<lambda>c. is_space c \<or> c = CHR ''-'') 1 None]"

definition to_initials :: "string \<Rightarrow> string" where
  "to_initials name =
     (if name = [] then ''NA''
      else
        let name = re_sub EMAIL_PATTERN '' '' None name;
            name = re_sub ORCID_PATTERN '' '' None name;
            tokens = re_split TOKEN_SEPARATOR None [] (strip name);
            initials = map hd (filter (\<lambda>t. t \<noteq> [] \<and> is_alpha (hd t)) tokens)
        in if initials = [] then ''NA'' else upper initials)"

subsection \<open>Paths and the directory\<close>

text \<open>
  A path is the directory it lies in and its final component. \<open>stem\<close> and \<open>suffix\<close>
  are pathlib's (Python 3.8 to 3.13): the suffix starts at the last dot of the
  name, unless that dot is the first or the last character. \<open>with_name\<close> replaces
  the final component; names are single path components here, as \<open>compose_name\<close>
  produces them, so pathlib's check of the new name is left out.

  The file system is the finite set of the paths that exist.
\<close>

record path =
  parent :: string
  name :: string

definition rfind :: "char \<Rightarrow> string \<Rightarrow> int" where
  "rfind c s =
     (if c \<in> set s then int (length s) - 1 - int (length (takeWhile (\<lambda>x. x \<noteq> c) (rev s)))
      else - 1)"

definition suffix_of :: "string \<Rightarrow> string" where
  "suffix_of n =
     (let i = rfind (CHR ''.'') n
      in if 0 < i \<and> i < int (length n) - 1 then drop (nat i) n else [])"

definition stem_of :: "string \<Rightarrow> string" where
  "stem_of n =
     (let i = rfind (CHR ''.'') n
      in if 0 < i \<and> i < int (length n) - 1 then take (nat i) n else n)"

definition stem :: "path \<Rightarrow> string" where
  "stem p = stem_of (name p)"

definition suffix :: "path \<Rightarrow> string" where
  "suffix p = suffix_of (name p)"

definition with_name :: "path \<Rightarrow> string \<Rightarrow> path" where
  "with_name p n = p\<lparr>name := n\<rparr>"

type_synonym filesystem = "path fset"

definition exists :: "filesystem \<Rightarrow> path \<Rightarrow> bool" where
  "exists fs p = (p |\<in>| fs)"

datatype error = RuntimeError string | FileNotFoundError

text \<open>
  \<open>path.rename(target)\<close>: the source must exist; it then exists under the new
  path only.
\<close>

definition rename :: "filesystem \<Rightarrow> path \<Rightarrow> path \<Rightarrow> error + filesystem" where
  "rename fs p target =
     (if exists fs p then Inr (finsert target (fs |-| {|p|})) else Inl FileNotFoundError)"

text \<open>
  \<open>safe_rename\<close>. \<open>candidate p st suf i\<close> is \<open>path.with_name(f"{stem} ({i}){suf}")\<close>, and
  \<open>first_free\<close> is the \<open>while True\<close> loop, entered with \<open>i = 1\<close>: it returns the first
  candidate that does not exist. The loop ends because the candidates are pairwise
  different and the file system is finite.
\<close>

definition candidate :: "path \<Rightarrow> string \<Rightarrow> string \<Rightarrow> nat \<Rightarrow> path" where
  "candidate p st suf i = with_name p (st @ '' ('' @ str_nat i @ '')'' @ suf)"

text \<open>The number a decimal numeral stands for: \<open>str_nat\<close> read back.\<close>

definition digit_value :: "char \<Rightarrow> nat" where
  "digit_value c = code_point c - 48"

definition read_nat :: "string \<Rightarrow> nat" where
  "read_nat s = foldl (\<lambda>a c. 10 * a + digit_value c) 0 s"

function first_free :: "filesystem \<Rightarrow> path \<Rightarrow> string \<Rightarrow> string \<Rightarrow> nat \<Rightarrow> path" where
  "first_free fs p st suf i =
     (let cand = candidate p st suf i
      in if \<not> exists fs cand then cand else first_free fs p st suf (i + 1))"
  by pat_completeness auto
termination
proof (relation "measure (\<lambda>(fs, p, st, suf, i). card {j. i \<le> j \<and> candidate p st suf j |\<in>| fs})")
  show "wf (measure (\<lambda>(fs, p, st, suf, i). card {j. i \<le> j \<and> candidate p st suf j |\<in>| fs}))"
    by simp
next
  fix fs :: filesystem and p st suf i x
  assume x: "x = candidate p st suf i" and "\<not> \<not> exists fs x"
  then have here: "candidate p st suf i |\<in>| fs" by (simp add: exists_def)
  have digit: "digit_value (digit_char d) = d" if "d < 10" for d
  proof -
    from that have "d \<in> {0, 1, 2, 3, 4, 5, 6, 7, 8, 9}" by auto
    then show ?thesis
      by (auto simp: digit_value_def digit_char_def code_point_def)
  qed
  have read_str: "read_nat (str_nat n) = n" for n
  proof (induction n rule: str_nat.induct)
    case (1 n)
    show ?case
    proof (cases "n < 10")
      case True
      then show ?thesis
        by (subst str_nat.simps) (simp add: read_nat_def digit)
    next
      case False
      with 1 show ?thesis
        by (subst str_nat.simps) (simp add: read_nat_def digit)
    qed
  qed
  have "inj (candidate p st suf)"
  proof (rule injI)
    fix a b
    assume "candidate p st suf a = candidate p st suf b"
    then have "name (candidate p st suf a) = name (candidate p st suf b)" by simp
    then have "str_nat a = str_nat b"
      by (simp add: candidate_def with_name_def)
    then show "a = b" by (metis read_str)
  qed
  then have "finite (candidate p st suf -` fset fs)"
    by (intro finite_vimageI) simp_all
  then have taken: "finite {j. candidate p st suf j |\<in>| fs}"
    by (simp add: vimage_def)
  have fin: "finite {j. i \<le> j \<and> candidate p st suf j |\<in>| fs}"
    by (rule finite_subset [OF _ taken]) auto
  have "i \<in> {j. i \<le> j \<and> candidate p st suf j |\<in>| fs}"
    and "i \<notin> {j. i + 1 \<le> j \<and> candidate p st suf j |\<in>| fs}"
    and "{j. i + 1 \<le> j \<and> candidate p st suf j |\<in>| fs}
          \<subseteq> {j. i \<le> j \<and> candidate p st suf j |\<in>| fs}"
    using here by auto
  then have "{j. i + 1 \<le> j \<and> candidate p st suf j |\<in>| fs}
          \<subset> {j. i \<le> j \<and> candidate p st suf j |\<in>| fs}"
    by blast
  then have "card {j. i + 1 \<le> j \<and> candidate p st suf j |\<in>| fs}
          < card {j. i \<le> j \<and> candidate p st suf j |\<in>| fs}"
    by (rule psubset_card_mono [OF fin])
  then show "((fs, p, st, suf, i + 1), (fs, p, st, suf, i))
      \<in> measure (\<lambda>(fs, p, st, suf, i). card {j. i \<le> j \<and> candidate p st suf j |\<in>| fs})"
    by simp
qed

declare first_free.simps [simp del]

text \<open>
  The result is the returned path, or the error that \<open>path.rename\<close> raised, and the
  file system after the call.
\<close>

definition safe_rename ::
  "filesystem \<Rightarrow> path \<Rightarrow> string \<Rightarrow> bool \<Rightarrow> (error + path) \<times> filesystem" where
  "safe_rename fs p new_name dry_run =
     (let target = with_name p new_name
      in if target = p then (Inr target, fs)
         else
           let target = (if exists fs target
                         then first_free fs p (stem target) (suffix target) 1
                         else target)
           in if \<not> dry_run
              then (case rename fs p target of
                      Inl e \<Rightarrow> (Inl e, fs)
                    | Inr fs' \<Rightarrow> (Inr target, fs'))
              else (Inr target, fs))"

subsection \<open>Data extraction\<close>

text \<open>
  A document as PyMuPDF shows it to the program: for each page the text that
  \<open>load_page(i).get_text()\<close> returns, or \<open>None\<close> when that call raises, and the
  metadata dictionary (\<open>None\<close> when \<open>doc.metadata\<close> is \<open>None\<close>; a key whose value is
  \<open>None\<close> is left out of the map).
\<close>

record document =
  pages :: "string option list"
  metadata :: "(string \<rightharpoonup> string) option"

definition extract_visible_text :: "document \<Rightarrow> nat \<Rightarrow> string" where
  "extract_visible_text doc max_pages =
     join [CHR 0x0A]
       (List.map_filter (\<lambda>page. page) (take (min max_pages (length (pages doc))) (pages doc)))"

text \<open>
  \<open>DOI_PATTERN = re.compile(r'10\.\d{4,9}/[-._;()/:A-Z0-9]+', re.I)\<close>. Ignoring
  case, the class \<open>A-Z\<close> also holds \<open>a\<close>..\<open>z\<close>.
\<close>

definition is_doi_char :: "char \<Rightarrow> bool" where
  "is_doi_char c = (c \<in> set ''-._;()/:'' \<or> is_ascii_upper c \<or> is_ascii_lower c \<or> is_digit c)"

definition DOI_PATTERN :: pattern where
  "DOI_PATTERN =
     [lit (CHR ''1''), lit (CHR ''0''), lit (CHR ''.''), Rep is_digit 4 (Some 9),
      lit (CHR ''/''), Rep is_doi_char 1 None]"

definition find_doi :: "string option \<Rightarrow> string option" where
  "find_doi text =
     (let t = or_else text []
      in case re_search DOI_PATTERN None t of
           None \<Rightarrow> None
         | Some (i, n) \<Rightarrow> Some (rstrip_chars '').,;]}>'' (take n (drop i t))))"

text \<open>
  \<open>query_crossref_by_doi\<close>. \<open>requests_get url agent\<close> stands for
  \<open>requests.get(url, headers={'User-Agent': agent}, timeout=20)\<close>: it raises (the
  text of the exception is given) or returns a response. \<open>raise_for_status()\<close>
  raises for the status codes 400 to 599, with the text \<open>http_error\<close> of the response.
  \<open>r.json()\<close> raises on a body that is not a JSON object of the expected shape, or
  gives the object, whose entry \<open>message\<close> may be missing.

  A Crossref message holds a list of titles, a list of authors, each with a given
  and a family name, and a publisher; every entry may be missing.
\<close>

record author =
  given :: "string option"
  family :: "string option"

record crossref_message =
  msg_title :: "string list option"
  msg_author :: "author list option"
  msg_publisher :: "string option"

datatype http_body = Malformed string | Json_Object "crossref_message option"

record http_response =
  status_code :: nat
  http_error :: string
  body :: http_body

type_synonym http_get = "string \<Rightarrow> string \<Rightarrow> string + http_response"

definition hex_digit :: "nat \<Rightarrow> char" where
  "hex_digit d = ''0123456789ABCDEF'' ! d"

definition percent :: "nat \<Rightarrow> string" where
  "percent b = [CHR ''%'', hex_digit (b div 16), hex_digit (b mod 16)]"

text \<open>\<open>urllib.parse.quote\<close>: the bytes of the UTF-8 encoding, percent-encoded.\<close>

definition quote_char :: "char \<Rightarrow> string" where
  "quote_char c =
     (if is_ascii_alnum c \<or> c \<in> set ''_.-~/'' then [c]
      else if code_point c < 128 then percent (code_point c)
      else percent (192 + code_point c div 64) @ percent (128 + code_point c mod 64))"

definition quote :: "string \<Rightarrow> string" where
  "quote s = concat (map quote_char s)"

definition empty_message :: crossref_message where
  "empty_message = \<lparr>msg_title = None, msg_author = None, msg_publisher = None\<rparr>"

definition query_crossref_by_doi ::
  "http_get \<Rightarrow> string \<Rightarrow> string option \<Rightarrow> string + crossref_message" where
  "query_crossref_by_doi requests_get doi email =
     (let url = ''https://api.crossref.org/works/'' @ quote doi;
          agent = (case email of
                     None \<Rightarrow> ''paper-renamer/1.0''
                   | Some e \<Rightarrow> if e = [] then ''paper-renamer/1.0''
                              else ''paper-renamer/1.0 (mailto:'' @ e @ '')'')
      in case requests_get url agent of
           Inl e \<Rightarrow> Inl e
         | Inr r \<Rightarrow>
             if 400 \<le> status_code r \<and> status_code r < 600 then Inl (http_error r)
             else (case body r of
                     Malformed e \<Rightarrow> Inl e
                   | Json_Object None \<Rightarrow> Inr empty_message
                   | Json_Object (Some msg) \<Rightarrow> Inr msg))"

subsection \<open>Compose name\<close>

definition compose_name :: "string option \<Rightarrow> string option \<Rightarrow> string option \<Rightarrow> string" where
  "compose_name publisher title first_author =
     (let pub = sanitize (Str (or_else publisher ''Unknown Publisher''));
          ttl = sanitize (Str (or_else title ''Untitled''));
          auth_initials = to_initials (or_else first_author ''Unknown Author'')
      in truncate_filename (pub @ '' - '' @ ttl @ '' - '' @ auth_initials @ ''.pdf'') 180)"

subsection \<open>Main processing\<close>

text \<open>
  The local variables of \<open>process_pdf\<close>: the three fields, \<open>None\<close> at first, and the
  log. The three numbered blocks of \<open>process_pdf\<close> are three functions on them.
\<close>

record fields =
  title :: "string option"
  first_author :: "string option"
  publisher :: "string option"
  log :: "string list"

definition initial_fields :: fields where
  "initial_fields = \<lparr>title = None, first_author = None, publisher = None, log = []\<rparr>"

text \<open>The three assignments from the Crossref message (lines 126 to 135).\<close>

definition crossref_fields :: "crossref_message \<Rightarrow> fields \<Rightarrow> fields" where
  "crossref_fields msg st =
     (let st = (case msg_title msg of
                  Some (t # ts) \<Rightarrow>
                    if \<not> truthy (title st)
                    then st\<lparr>title := Some t, log := log st @ [''title from Crossref'']\<rparr>
                    else st
                | _ \<Rightarrow> st);
          st = (case msg_author msg of
                  Some (a0 # as) \<Rightarrow>
                    if \<not> truthy (first_author st)
                    then st\<lparr>first_author :=
                              Some (strip (join '' ''
                                [case given a0 of None \<Rightarrow> [] | Some g \<Rightarrow> g,
                                 case family a0 of None \<Rightarrow> [] | Some f \<Rightarrow> f])),
                            log := log st @ [''author from Crossref'']\<rparr>
                    else st
                | _ \<Rightarrow> st);
          st = (case msg_publisher msg of
                  Some p \<Rightarrow>
                    if \<not> truthy (publisher st) \<and> p \<noteq> []
                    then st\<lparr>publisher := Some p, log := log st @ [''publisher from Crossref'']\<rparr>
                    else st
                | None \<Rightarrow> st)
      in st)"

text \<open>
  Block 1, the Crossref lookup, unless local-only. Whatever is raised inside the
  \<open>try\<close> is caught and logged; in the model only the query can raise.
\<close>

definition crossref_stage ::
  "http_get \<Rightarrow> string \<Rightarrow> bool \<Rightarrow> string option \<Rightarrow> fields \<Rightarrow> fields" where
  "crossref_stage requests_get text_first local_only email st =
     (if \<not> local_only then
        (case find_doi (Some text_first) of
           None \<Rightarrow> st
         | Some doi \<Rightarrow>
             if doi = [] then st
             else
               let st = st\<lparr>log := log st @ [''found DOI '' @ doi]\<rparr>
               in (case query_crossref_by_doi requests_get doi email of
                     Inl e \<Rightarrow> st\<lparr>log := log st @ [''Crossref failed: '' @ e]\<rparr>
                   | Inr msg \<Rightarrow> crossref_fields msg st))
      else st)"

text \<open>Block 2, the metadata embedded in the PDF.\<close>

definition embedded_stage :: "document \<Rightarrow> fields \<Rightarrow> fields" where
  "embedded_stage doc st =
     (if \<not> (truthy (title st) \<and> truthy (first_author st)) then
        let meta = (case metadata doc of None \<Rightarrow> Map.empty | Some m \<Rightarrow> m);
            st = (case meta ''title'' of
                    Some t \<Rightarrow>
                      if \<not> truthy (title st) \<and> t \<noteq> []
                      then st\<lparr>title := Some (strip t),
                              log := log st @ [''title from embedded metadata'']\<rparr>
                      else st
                  | None \<Rightarrow> st);
            st = (case meta ''author'' of
                    Some a \<Rightarrow>
                      if \<not> truthy (first_author st) \<and> a \<noteq> []
                      then st\<lparr>first_author := Some (strip a),
                              log := log st @ [''author from embedded metadata'']\<rparr>
                      else st
                  | None \<Rightarrow> st)
        in st
      else st)"

text \<open>Block 3, the final fallbacks.\<close>

definition default_stage :: "path \<Rightarrow> fields \<Rightarrow> fields" where
  "default_stage pdf_path st =
     (let st = (if \<not> truthy (title st)
                then st\<lparr>title := Some (stem pdf_path),
                        log := log st @ [''fallback: title from filename'']\<rparr>
                else st);
          st = (if \<not> truthy (first_author st)
                then st\<lparr>first_author := Some ''Unknown Author'',
                        log := log st @ [''fallback: unknown author'']\<rparr>
                else st);
          st = (if \<not> truthy (publisher st)
                then st\<lparr>publisher := Some ''Unknown Publisher'',
                        log := log st @ [''fallback: unknown publisher'']\<rparr>
                else st)
      in st)"

text \<open>
  The fields after each block, for an opened document. \<open>resolve\<close> is the state in
  which \<open>process_pdf\<close> calls \<open>compose_name\<close>.
\<close>

definition after_crossref ::
  "http_get \<Rightarrow> document \<Rightarrow> bool \<Rightarrow> string option \<Rightarrow> fields" where
  "after_crossref requests_get doc local_only email =
     crossref_stage requests_get (extract_visible_text doc 2) local_only email initial_fields"

definition after_embedded ::
  "http_get \<Rightarrow> document \<Rightarrow> bool \<Rightarrow> string option \<Rightarrow> fields" where
  "after_embedded requests_get doc local_only email =
     embedded_stage doc (after_crossref requests_get doc local_only email)"

definition resolve ::
  "http_get \<Rightarrow> document \<Rightarrow> path \<Rightarrow> bool \<Rightarrow> string option \<Rightarrow> fields" where
  "resolve requests_get doc pdf_path local_only email =
     default_stage pdf_path (after_embedded requests_get doc local_only email)"

text \<open>
  \<open>process_pdf\<close>. \<open>fitz_open\<close> stands for \<open>fitz.open(str(pdf_path))\<close>: it raises (the
  text of the exception is given) or returns the document. The result is the
  triple of the old name, the new name and the log joined by \<open>"; "\<close>.
\<close>

definition process_pdf ::
  "(path \<Rightarrow> string + document) \<Rightarrow> http_get \<Rightarrow> path \<Rightarrow> bool \<Rightarrow> string option
     \<Rightarrow> error + string \<times> string \<times> string" where
  "process_pdf fitz_open requests_get pdf_path local_only email =
     (case fitz_open pdf_path of
        Inl e \<Rightarrow> Inl (RuntimeError (''Cannot open PDF: '' @ e))
      | Inr doc \<Rightarrow>
          let st = resolve requests_get doc pdf_path local_only email;
              new_name = compose_name (publisher st) (title st) (first_author st);
              why = join ''; '' (log st)
          in Inr (name pdf_path, new_name, if why = [] then ''ok'' else why))"

section \<open>Definitions for the statements and proofs\<close>

text \<open>
  \<open>collapse_ws\<close> replaces each maximal run of white space by one blank; it is what
  \<open>re.sub(r'\s+', ' ', text)\<close> computes (lemma \<open>re_sub_whitespace\<close> below).
  \<open>no_ws_pair\<close> holds of two neighbouring characters that are not both white space.
\<close>

function collapse_ws :: "string \<Rightarrow> string" where
  "collapse_ws [] = []"
| "collapse_ws (c # cs) =
     (if is_space c then CHR '' '' # collapse_ws (dropWhile is_space cs) else c # collapse_ws cs)"
  by pat_completeness auto
termination
  by (relation "measure length") (auto simp: le_imp_less_Suc length_dropWhile_le)

definition no_ws_pair :: "char \<Rightarrow> char \<Rightarrow> bool" where
  "no_ws_pair a b = (\<not> (is_space a \<and> is_space b))"

text \<open>
  The strings that the pattern \<open>10\.\d{4,9}/[-._;()/:A-Z0-9]+\<close> matches, ignoring
  case: \<open>10.\<close>, four to nine digits, a slash, and one or more characters of the class.
\<close>

definition doi_token :: "string \<Rightarrow> bool" where
  "doi_token w =
     (\<exists>ds ts. w = ''10.'' @ ds @ ''/'' @ ts
        \<and> 4 \<le> length ds \<and> length ds \<le> 9 \<and> (\<forall>d \<in> set ds. is_digit d)
        \<and> ts \<noteq> [] \<and> (\<forall>t \<in> set ts. is_doi_char t))"

text \<open>
  What the matcher computes on the DOI pattern, in closed form: after \<open>10.\<close> the run
  of digits must have four to nine digits and a slash after it (giving back a digit
  never helps, since the next character is then a digit and not the slash), and
  the last class takes its whole run.
\<close>

definition digits_then_suffix :: "string \<Rightarrow> nat option" where
  "digits_then_suffix s =
     (let k = length (takeWhile is_digit s)
      in if 4 \<le> k \<and> k \<le> 9
         then (case drop k s of
                 [] \<Rightarrow> None
               | c # t \<Rightarrow>
                   if c = CHR ''/'' \<and> takeWhile is_doi_char t \<noteq> []
                   then Some (k + 1 + length (takeWhile is_doi_char t)) else None)
         else None)"

definition doi_match_length :: "string \<Rightarrow> nat option" where
  "doi_match_length s =
     (case s of
        c1 # c2 # c3 # r \<Rightarrow>
          if c1 = CHR ''1'' \<and> c2 = CHR ''0'' \<and> c3 = CHR ''.''
          then map_option (\<lambda>n. n + 3) (digits_then_suffix r) else None
      | _ \<Rightarrow> None)"

text \<open>
  Sample data for the properties below: a file \<open>papers/scan.pdf\<close> whose first page
  names a DOI and whose embedded title is three blanks, a Crossref service that
  answers with status 503, and one that answers with a full record.
\<close>

definition sample_path :: path where
  "sample_path = \<lparr>parent = ''papers'', name = ''scan.pdf''\<rparr>"

definition sample_doc :: document where
  "sample_doc =
     \<lparr>pages = [Some ''see 10.1000/xyz123.''],
      metadata = Some [''title'' \<mapsto> ''   '', ''author'' \<mapsto> ''A. Smith'']\<rparr>"

definition unavailable :: http_get where
  "unavailable = (\<lambda>url agent.
     Inr \<lparr>status_code = 503, http_error = ''503 Server Error'', body = Malformed []\<rparr>)"

definition registered :: http_get where
  "registered = (\<lambda>url agent.
     Inr \<lparr>status_code = 200, http_error = [],
          body = Json_Object (Some
            \<lparr>msg_title = Some [''A Study of Things''],
             msg_author = Some [\<lparr>given = Some ''Jane'', family = Some ''Doe''\<rparr>],
             msg_publisher = Some ''ACME''\<rparr>)\<rparr>)"

section \<open>Properties\<close>

subsection \<open>The text sanitizer\<close>

text \<open>
  On the pattern \<open>\s+\<close> the matcher takes the whole run of white space, so the
  substitution is \<open>collapse_ws\<close>.
\<close>

lemma try_counts_first: "lo \<le> n \<Longrightarrow> k n = Some r \<Longrightarrow> try_counts k lo n = Some r"
  by (cases n) auto

lemma try_counts_below: "n < lo \<Longrightarrow> try_counts k lo n = None"
  by (cases n) auto

lemma match_at_last_rep:
  "match_at [Rep p lo None] prev s =
     (if lo \<le> length (takeWhile p s) then Some (length (takeWhile p s)) else None)"
  by (simp add: max_count_def try_counts_first try_counts_below)

lemma match_at_whitespace:
  "match_at WHITESPACE_RUN prev (c # cs) =
     (if is_space c then Some (Suc (length (takeWhile is_space cs))) else None)"
  by (simp add: WHITESPACE_RUN_def match_at_last_rep del: match_at.simps)

lemma re_sub_whitespace: "re_sub WHITESPACE_RUN '' '' prev s = collapse_ws s"
proof (induction s arbitrary: prev rule: collapse_ws.induct)
  case 1
  show ?case by simp
next
  case (2 c cs)
  show ?case
  proof (cases "is_space c")
    case True
    have "drop (length (takeWhile is_space cs)) cs = dropWhile is_space cs"
      by (simp add: dropWhile_eq_drop)
    with True 2(1) show ?thesis
      by (simp add: match_at_whitespace)
  next
    case False
    with 2(2) show ?thesis
      by (simp add: match_at_whitespace)
  qed
qed

lemma is_space_blank: "is_space (CHR '' '')"
  by (simp add: is_space_def)

lemma collapse_ws_set: "set (collapse_ws s) \<subseteq> insert (CHR '' '') (set s)"
proof (induction s rule: collapse_ws.induct)
  case 1
  show ?case by simp
next
  case (2 c cs)
  have "set (dropWhile is_space cs) \<subseteq> set cs"
    by (simp add: set_dropWhileD subsetI)
  with 2 show ?case by auto
qed

lemma collapse_ws_hd:
  "collapse_ws s \<noteq> [] \<Longrightarrow> is_space (hd (collapse_ws s)) \<Longrightarrow> s \<noteq> [] \<and> is_space (hd s)"
  by (cases s) (auto simp: is_space_blank split: if_splits)

lemma collapse_ws_successively: "successively no_ws_pair (collapse_ws s)"
proof (induction s rule: collapse_ws.induct)
  case 1
  show ?case by simp
next
  case (2 c cs)
  show ?case
  proof (cases "is_space c")
    case True
    let ?r = "dropWhile is_space cs"
    have "collapse_ws ?r \<noteq> [] \<Longrightarrow> \<not> is_space (hd (collapse_ws ?r))"
      using collapse_ws_hd [of ?r] hd_dropWhile [of is_space cs] by blast
    with True 2(1) show ?thesis
      by (cases "collapse_ws ?r") (auto simp: no_ws_pair_def)
  next
    case False
    with 2(2) show ?thesis
      by (cases "collapse_ws cs") (auto simp: no_ws_pair_def)
  qed
qed

lemma successively_dropWhile: "successively P xs \<Longrightarrow> successively P (dropWhile Q xs)"
  by (metis successively_append_iff takeWhile_dropWhile_id)

lemma no_ws_pair_flip: "(\<lambda>x y. no_ws_pair y x) = no_ws_pair"
  by (auto simp: no_ws_pair_def fun_eq_iff)

lemma strip_successively: "successively no_ws_pair s \<Longrightarrow> successively no_ws_pair (strip s)"
  by (simp add: strip_def rstrip_def no_ws_pair_flip successively_dropWhile)

lemma strip_set: "set (strip s) \<subseteq> set s"
  unfolding strip_def rstrip_def
  by (metis set_dropWhileD set_rev subsetI)

lemma strip_hd: "strip s \<noteq> [] \<Longrightarrow> \<not> is_space (hd (strip s))"
proof -
  assume ne: "strip s \<noteq> []"
  let ?d = "dropWhile is_space s"
  have "strip s = rev (dropWhile is_space (rev ?d))" by (simp add: strip_def rstrip_def)
  then obtain t where d: "?d = strip s @ t"
    by (metis rev_append rev_rev_ident takeWhile_dropWhile_id)
  with ne have "hd (strip s) = hd ?d" by simp
  moreover from d ne have "?d \<noteq> []" by auto
  ultimately show ?thesis using hd_dropWhile [of is_space s] by simp
qed

lemma strip_last: "strip s \<noteq> [] \<Longrightarrow> \<not> is_space (last (strip s))"
proof -
  assume ne: "strip s \<noteq> []"
  let ?r = "dropWhile is_space (rev (dropWhile is_space s))"
  have s: "strip s = rev ?r" by (simp add: strip_def rstrip_def)
  with ne have "?r \<noteq> []" by simp
  then have "\<not> is_space (hd ?r)" by (rule hd_dropWhile)
  with s ne show ?thesis by (simp add: last_rev)
qed

lemma replace_char_set: "set (replace_char ch '' '' s) \<subseteq> insert (CHR '' '') (set s - {ch})"
  by (auto simp: replace_char_def split: if_splits)

lemma replace_all_set:
  "set (foldl (\<lambda>text ch. replace_char ch REPLACEMENT text) s chs)
     \<subseteq> insert (CHR '' '') (set s - set chs)"
proof (induction chs arbitrary: s)
  case Nil
  show ?case by auto
next
  case (Cons ch chs)
  have "set (foldl (\<lambda>text ch. replace_char ch REPLACEMENT text) (replace_char ch REPLACEMENT s) chs)
          \<subseteq> insert (CHR '' '') (set (replace_char ch REPLACEMENT s) - set chs)"
    by (rule Cons.IH)
  moreover have "set (replace_char ch REPLACEMENT s) \<subseteq> insert (CHR '' '') (set s - {ch})"
    unfolding REPLACEMENT_def by (rule replace_char_set)
  ultimately show ?case by auto
qed

lemma sanitize_unfold:
  "sanitize t =
     strip (collapse_ws (foldl (\<lambda>text ch. replace_char ch REPLACEMENT text)
       (case t of Str s \<Rightarrow> s | NoneText \<Rightarrow> [] | Other r \<Rightarrow> r) INVALID_CHARS))"
  by (simp add: sanitize_def re_sub_whitespace)

lemma sanitize_set: "set (sanitize t) \<subseteq> insert (CHR '' '') (UNIV - set INVALID_CHARS)"
proof -
  let ?r = "foldl (\<lambda>text ch. replace_char ch REPLACEMENT text)
       (case t of Str s \<Rightarrow> s | NoneText \<Rightarrow> [] | Other r \<Rightarrow> r) INVALID_CHARS"
  have "set (sanitize t) \<subseteq> set (collapse_ws ?r)"
    unfolding sanitize_unfold by (rule strip_set)
  also have "\<dots> \<subseteq> insert (CHR '' '') (set ?r)" by (rule collapse_ws_set)
  also have "\<dots> \<subseteq> insert (CHR '' '') (UNIV - set INVALID_CHARS)"
    using replace_all_set [of "case t of Str s \<Rightarrow> s | NoneText \<Rightarrow> [] | Other r \<Rightarrow> r" INVALID_CHARS]
    by auto
  finally show ?thesis .
qed

lemma sanitize_successively: "successively no_ws_pair (sanitize t)"
  unfolding sanitize_unfold by (intro strip_successively collapse_ws_successively)

text \<open>
  C9. For every argument, \<open>sanitize\<close> returns a string that holds none of the
  characters \<open>< > : " / \ | ? *\<close>, in which no two neighbouring characters are both
  white space, and which neither starts nor ends with white space. \<open>sanitize\<close> is a
  total function (it has no failing branch), and \<open>None\<close> is mapped to the empty string.
\<close>

theorem sanitize_clean:
  "(\<forall>c \<in> set (sanitize t). c \<notin> set ''<>:/|?*'' \<and> c \<noteq> CHR 0x22 \<and> c \<noteq> CHR 0x5C)
   \<and> (\<forall>i. Suc i < length (sanitize t)
          \<longrightarrow> \<not> (is_space (sanitize t ! i) \<and> is_space (sanitize t ! Suc i)))
   \<and> (sanitize t \<noteq> [] \<longrightarrow> \<not> is_space (hd (sanitize t)) \<and> \<not> is_space (last (sanitize t)))
   \<and> sanitize NoneText = []"
proof (intro conjI)
  show "\<forall>c \<in> set (sanitize t). c \<notin> set ''<>:/|?*'' \<and> c \<noteq> CHR 0x22 \<and> c \<noteq> CHR 0x5C"
    using sanitize_set [of t] by (auto simp: INVALID_CHARS_def)
  show "\<forall>i. Suc i < length (sanitize t)
          \<longrightarrow> \<not> (is_space (sanitize t ! i) \<and> is_space (sanitize t ! Suc i))"
    using sanitize_successively [of t] by (simp add: successively_conv_nth no_ws_pair_def)
  show "sanitize t \<noteq> [] \<longrightarrow> \<not> is_space (hd (sanitize t)) \<and> \<not> is_space (last (sanitize t))"
    unfolding sanitize_unfold using strip_hd strip_last by blast
  show "sanitize NoneText = []"
    by (simp add: sanitize_unfold INVALID_CHARS_def REPLACEMENT_def replace_char_def strip_def rstrip_def)
qed

text \<open>
  The property at a string with leading and trailing blanks, a tab, a run of
  blanks and four of the forbidden characters.
\<close>

theorem sanitize_clean_witness:
  "sanitize (Str (''  a<b>  c:d'' @ [CHR 0x09, CHR 0x22, CHR 0x5C] @ ''e  '')) = ''a b c d e''
   \<and> CHR ''<'' \<notin> set (sanitize (Str (''  a<b>  c:d'' @ [CHR 0x09, CHR 0x22, CHR 0x5C] @ ''e  '')))
   \<and> \<not> is_space (hd (sanitize (Str (''  a<b>  c:d'' @ [CHR 0x09, CHR 0x22, CHR 0x5C] @ ''e  ''))))"
proof -
  have e: "sanitize (Str (''  a<b>  c:d'' @ [CHR 0x09, CHR 0x22, CHR 0x5C] @ ''e  '')) = ''a b c d e''"
    by code_simp
  show ?thesis
    using sanitize_clean [of "Str (''  a<b>  c:d'' @ [CHR 0x09, CHR 0x22, CHR 0x5C] @ ''e  '')"] e
    by simp
qed

lemma replace_char_absent: "ch \<notin> set s \<Longrightarrow> replace_char ch new s = s"
  by (induction s) (auto simp: replace_char_def)

lemma replace_all_absent:
  "set s \<inter> set chs = {} \<Longrightarrow> foldl (\<lambda>text ch. replace_char ch REPLACEMENT text) s chs = s"
  by (induction chs) (auto simp: replace_char_absent)

lemma collapse_ws_spaces:
  "c \<in> set (collapse_ws s) \<Longrightarrow> is_space c \<Longrightarrow> c = CHR '' ''"
proof (induction s rule: collapse_ws.induct)
  case 1
  then show ?case by simp
next
  case (2 d ds)
  then show ?case by (auto split: if_splits)
qed

lemma collapse_ws_fixed:
  "successively no_ws_pair s \<Longrightarrow> (\<forall>c \<in> set s. is_space c \<longrightarrow> c = CHR '' '') \<Longrightarrow>
     collapse_ws s = s"
proof (induction s rule: collapse_ws.induct)
  case 1
  show ?case by simp
next
  case (2 c cs)
  have rest: "successively no_ws_pair cs" "\<forall>x \<in> set cs. is_space x \<longrightarrow> x = CHR '' ''"
    using 2(3,4) by (cases cs; simp)+
  show ?case
  proof (cases "is_space c")
    case True
    with 2(3) have "cs = [] \<or> \<not> is_space (hd cs)"
      by (cases cs) (auto simp: no_ws_pair_def)
    then have d: "dropWhile is_space cs = cs"
      by (cases cs) auto
    from True 2(4) have "c = CHR '' ''" by simp
    with True 2(1) rest d show ?thesis by simp
  next
    case False
    with 2(2) rest show ?thesis by simp
  qed
qed

lemma strip_fixed:
  assumes "s \<noteq> [] \<longrightarrow> \<not> is_space (hd s) \<and> \<not> is_space (last s)"
  shows "strip s = s"
proof (cases "s = []")
  case True
  then show ?thesis by (simp add: strip_def rstrip_def)
next
  case False
  with assms have h: "\<not> is_space (hd s)" and l: "\<not> is_space (last s)" by auto
  from False h have a: "dropWhile is_space s = s" by (cases s) auto
  from False l have "\<not> is_space (hd (rev s))" by (simp add: hd_rev)
  with False have b: "dropWhile is_space (rev s) = rev s" by (cases "rev s") auto
  show ?thesis by (simp add: strip_def rstrip_def a b)
qed

lemma sanitize_spaces: "c \<in> set (sanitize t) \<Longrightarrow> is_space c \<Longrightarrow> c = CHR '' ''"
  unfolding sanitize_unfold using strip_set collapse_ws_spaces by blast

text \<open>X4. Sanitizing a sanitized string changes nothing.\<close>

theorem sanitize_idempotent: "sanitize (Str (sanitize t)) = sanitize t"
proof -
  let ?r = "sanitize t"
  have "set ?r \<inter> set INVALID_CHARS = {}"
    using sanitize_set [of t] by (auto simp: INVALID_CHARS_def)
  then have "foldl (\<lambda>text ch. replace_char ch REPLACEMENT text) ?r INVALID_CHARS = ?r"
    by (rule replace_all_absent)
  then have "sanitize (Str ?r) = strip (collapse_ws ?r)"
    by (simp add: sanitize_unfold [of "Str ?r"])
  also have "collapse_ws ?r = ?r"
    using sanitize_successively [of t] sanitize_spaces [of _ t] by (intro collapse_ws_fixed) auto
  also have "strip ?r = ?r"
  proof (rule strip_fixed)
    show "?r \<noteq> [] \<longrightarrow> \<not> is_space (hd ?r) \<and> \<not> is_space (last ?r)"
      unfolding sanitize_unfold using strip_hd strip_last by blast
  qed
  finally show ?thesis .
qed

subsection \<open>The collision-safe renamer\<close>

text \<open>
  The loop returns the candidate with the least number, from the start value on,
  that does not exist.
\<close>

lemma first_free_spec:
  "\<exists>k. i \<le> k \<and> first_free fs p st suf i = candidate p st suf k
       \<and> \<not> exists fs (candidate p st suf k)
       \<and> (\<forall>j. i \<le> j \<and> j < k \<longrightarrow> exists fs (candidate p st suf j))"
proof (induction fs p st suf i rule: first_free.induct)
  case (1 fs p st suf i)
  show ?case
  proof (cases "exists fs (candidate p st suf i)")
    case False
    then have "first_free fs p st suf i = candidate p st suf i"
      by (subst first_free.simps) simp
    with False show ?thesis by auto
  next
    case True
    then have step: "first_free fs p st suf i = first_free fs p st suf (i + 1)"
      by (subst first_free.simps) simp
    from True 1 obtain k where k: "i + 1 \<le> k"
      "first_free fs p st suf (i + 1) = candidate p st suf k"
      "\<not> exists fs (candidate p st suf k)"
      "\<forall>j. i + 1 \<le> j \<and> j < k \<longrightarrow> exists fs (candidate p st suf j)"
      by auto
    have "\<forall>j. i \<le> j \<and> j < k \<longrightarrow> exists fs (candidate p st suf j)"
    proof (intro allI impI)
      fix j assume "i \<le> j \<and> j < k"
      then show "exists fs (candidate p st suf j)"
        using k(4) True by (cases "j = i") auto
    qed
    with k step show ?thesis
      by (intro exI [of _ k]) auto
  qed
qed

lemma safe_rename_dry:
  "safe_rename fs p new_name True =
     (Inr (if with_name p new_name = p then p
           else if exists fs (with_name p new_name)
           then first_free fs p (stem_of new_name) (suffix_of new_name) 1
           else with_name p new_name), fs)"
  by (simp add: safe_rename_def Let_def stem_def suffix_def with_name_def)

lemma safe_rename_wet:
  "safe_rename fs p new_name False =
     (let t = (if with_name p new_name = p then p
               else if exists fs (with_name p new_name)
               then first_free fs p (stem_of new_name) (suffix_of new_name) 1
               else with_name p new_name)
      in if with_name p new_name = p then (Inr t, fs)
         else if exists fs p then (Inr t, finsert t (fs |-| {|p|}))
         else (Inl FileNotFoundError, fs))"
  by (simp add: safe_rename_def Let_def stem_def suffix_def with_name_def rename_def)

text \<open>
  C5. When the new name is the current name, \<open>safe_rename\<close> returns the path
  unchanged and leaves the file system as it is. When the new name differs and a
  file with that name exists, the returned name is \<open>"{stem} (i){suffix}"\<close> for the
  least \<open>i \<ge> 1\<close> for which no such file exists (in a dry run always, otherwise whenever
  the source file exists, so that the rename succeeds). With \<open>Foo.pdf\<close> taken the
  result is \<open>Foo (1).pdf\<close>; with \<open>Foo (1).pdf\<close> taken as well it is \<open>Foo (2).pdf\<close>.
\<close>

theorem safe_rename_first_unused:
  "safe_rename fs p (name p) dry_run = (Inr p, fs)
   \<and> (new_name \<noteq> name p \<and> exists fs (with_name p new_name) \<longrightarrow>
        (\<exists>i. 1 \<le> i
           \<and> fst (safe_rename fs p new_name True)
               = Inr (with_name p (stem_of new_name @ '' ('' @ str_nat i @ '')'' @ suffix_of new_name))
           \<and> (exists fs p \<longrightarrow> fst (safe_rename fs p new_name False)
               = Inr (with_name p (stem_of new_name @ '' ('' @ str_nat i @ '')'' @ suffix_of new_name)))
           \<and> \<not> exists fs (with_name p (stem_of new_name @ '' ('' @ str_nat i @ '')'' @ suffix_of new_name))
           \<and> (\<forall>j. 1 \<le> j \<and> j < i \<longrightarrow>
                exists fs (with_name p (stem_of new_name @ '' ('' @ str_nat j @ '')'' @ suffix_of new_name)))))
   \<and> fst (safe_rename {|\<lparr>parent = ''papers'', name = ''scan.pdf''\<rparr>,
                         \<lparr>parent = ''papers'', name = ''Foo.pdf''\<rparr>|}
            \<lparr>parent = ''papers'', name = ''scan.pdf''\<rparr> ''Foo.pdf'' dry_run)
       = Inr \<lparr>parent = ''papers'', name = ''Foo (1).pdf''\<rparr>
   \<and> fst (safe_rename {|\<lparr>parent = ''papers'', name = ''scan.pdf''\<rparr>,
                         \<lparr>parent = ''papers'', name = ''Foo.pdf''\<rparr>,
                         \<lparr>parent = ''papers'', name = ''Foo (1).pdf''\<rparr>|}
            \<lparr>parent = ''papers'', name = ''scan.pdf''\<rparr> ''Foo.pdf'' dry_run)
       = Inr \<lparr>parent = ''papers'', name = ''Foo (2).pdf''\<rparr>"
proof (intro conjI impI)
  show "safe_rename fs p (name p) dry_run = (Inr p, fs)"
    by (simp add: safe_rename_def with_name_def)
next
  assume a: "new_name \<noteq> name p \<and> exists fs (with_name p new_name)"
  then have ne: "with_name p new_name \<noteq> p"
    by (metis with_name_def path.select_convs(2) path.surjective path.update_convs(2))
  obtain k where k: "1 \<le> k"
    "first_free fs p (stem_of new_name) (suffix_of new_name) 1
       = candidate p (stem_of new_name) (suffix_of new_name) k"
    "\<not> exists fs (candidate p (stem_of new_name) (suffix_of new_name) k)"
    "\<forall>j. 1 \<le> j \<and> j < k \<longrightarrow> exists fs (candidate p (stem_of new_name) (suffix_of new_name) j)"
    using first_free_spec [of 1 fs p "stem_of new_name" "suffix_of new_name"] by blast
  show "\<exists>i. 1 \<le> i
           \<and> fst (safe_rename fs p new_name True)
               = Inr (with_name p (stem_of new_name @ '' ('' @ str_nat i @ '')'' @ suffix_of new_name))
           \<and> (exists fs p \<longrightarrow> fst (safe_rename fs p new_name False)
               = Inr (with_name p (stem_of new_name @ '' ('' @ str_nat i @ '')'' @ suffix_of new_name)))
           \<and> \<not> exists fs (with_name p (stem_of new_name @ '' ('' @ str_nat i @ '')'' @ suffix_of new_name))
           \<and> (\<forall>j. 1 \<le> j \<and> j < i \<longrightarrow>
                exists fs (with_name p (stem_of new_name @ '' ('' @ str_nat j @ '')'' @ suffix_of new_name)))"
    using a ne k
    by (intro exI [of _ k]) (simp add: safe_rename_dry safe_rename_wet candidate_def Let_def)
next
  show "fst (safe_rename {|\<lparr>parent = ''papers'', name = ''scan.pdf''\<rparr>,
                         \<lparr>parent = ''papers'', name = ''Foo.pdf''\<rparr>|}
            \<lparr>parent = ''papers'', name = ''scan.pdf''\<rparr> ''Foo.pdf'' dry_run)
       = Inr \<lparr>parent = ''papers'', name = ''Foo (1).pdf''\<rparr>"
    by (cases dry_run)
      (simp_all add: safe_rename_dry safe_rename_wet with_name_def exists_def stem_of_def
        suffix_of_def rfind_def candidate_def first_free.simps str_nat.simps digit_char_def Let_def)
next
  show "fst (safe_rename {|\<lparr>parent = ''papers'', name = ''scan.pdf''\<rparr>,
                         \<lparr>parent = ''papers'', name = ''Foo.pdf''\<rparr>,
                         \<lparr>parent = ''papers'', name = ''Foo (1).pdf''\<rparr>|}
            \<lparr>parent = ''papers'', name = ''scan.pdf''\<rparr> ''Foo.pdf'' dry_run)
       = Inr \<lparr>parent = ''papers'', name = ''Foo (2).pdf''\<rparr>"
    by (cases dry_run)
      (simp_all add: safe_rename_dry safe_rename_wet with_name_def exists_def stem_of_def
        suffix_of_def rfind_def candidate_def first_free.simps str_nat.simps digit_char_def Let_def)
qed

text \<open>
  The property in a directory that holds the source file, \<open>Foo.pdf\<close> and
  \<open>Foo (1).pdf\<close>.
\<close>

theorem safe_rename_first_unused_witness:
  "''Foo.pdf'' \<noteq> name \<lparr>parent = ''papers'', name = ''scan.pdf''\<rparr>
   \<and> exists {|\<lparr>parent = ''papers'', name = ''scan.pdf''\<rparr>,
               \<lparr>parent = ''papers'', name = ''Foo.pdf''\<rparr>,
               \<lparr>parent = ''papers'', name = ''Foo (1).pdf''\<rparr>|}
         (with_name \<lparr>parent = ''papers'', name = ''scan.pdf''\<rparr> ''Foo.pdf'')
   \<and> (\<exists>i. 1 \<le> i
        \<and> fst (safe_rename {|\<lparr>parent = ''papers'', name = ''scan.pdf''\<rparr>,
                              \<lparr>parent = ''papers'', name = ''Foo.pdf''\<rparr>,
                              \<lparr>parent = ''papers'', name = ''Foo (1).pdf''\<rparr>|}
                 \<lparr>parent = ''papers'', name = ''scan.pdf''\<rparr> ''Foo.pdf'' False)
            = Inr \<lparr>parent = ''papers'', name = ''Foo ('' @ str_nat i @ '').pdf''\<rparr>)
   \<and> fst (safe_rename {|\<lparr>parent = ''papers'', name = ''scan.pdf''\<rparr>,
                         \<lparr>parent = ''papers'', name = ''Foo.pdf''\<rparr>,
                         \<lparr>parent = ''papers'', name = ''Foo (1).pdf''\<rparr>|}
            \<lparr>parent = ''papers'', name = ''scan.pdf''\<rparr> ''Foo.pdf'' False)
       = Inr \<lparr>parent = ''papers'', name = ''Foo (2).pdf''\<rparr>"
  using safe_rename_first_unused
    [where p = "\<lparr>parent = ''papers'', name = ''scan.pdf''\<rparr>"
       and fs = "{|\<lparr>parent = ''papers'', name = ''scan.pdf''\<rparr>,
           \<lparr>parent = ''papers'', name = ''Foo.pdf''\<rparr>,
           \<lparr>parent = ''papers'', name = ''Foo (1).pdf''\<rparr>|}"
       and dry_run = False and new_name = "''Foo.pdf''"]
  by (auto simp: exists_def with_name_def stem_of_def suffix_of_def rfind_def)

text \<open>
  C7. A dry run returns the file system unchanged, and the path it returns is the
  path that the call without dry run returns in the same file system; that call
  fails only when the names differ and the source file does not exist.
\<close>

theorem safe_rename_dry_run:
  "snd (safe_rename fs p new_name True) = fs
   \<and> (\<exists>t. fst (safe_rename fs p new_name True) = Inr t
          \<and> fst (safe_rename fs p new_name False)
              = (if with_name p new_name = p \<or> exists fs p then Inr t else Inl FileNotFoundError))"
  by (simp add: safe_rename_dry safe_rename_wet Let_def)

text \<open>
  A directory in which the dry run and the real run return the same path, the dry
  run leaves the directory as it is and the real run changes it.
\<close>

theorem safe_rename_dry_run_witness:
  "snd (safe_rename {|\<lparr>parent = ''papers'', name = ''scan.pdf''\<rparr>,
                      \<lparr>parent = ''papers'', name = ''Foo.pdf''\<rparr>|}
         \<lparr>parent = ''papers'', name = ''scan.pdf''\<rparr> ''Foo.pdf'' True)
     = {|\<lparr>parent = ''papers'', name = ''scan.pdf''\<rparr>, \<lparr>parent = ''papers'', name = ''Foo.pdf''\<rparr>|}
   \<and> (\<exists>t. fst (safe_rename {|\<lparr>parent = ''papers'', name = ''scan.pdf''\<rparr>,
                      \<lparr>parent = ''papers'', name = ''Foo.pdf''\<rparr>|}
         \<lparr>parent = ''papers'', name = ''scan.pdf''\<rparr> ''Foo.pdf'' True) = Inr t
       \<and> fst (safe_rename {|\<lparr>parent = ''papers'', name = ''scan.pdf''\<rparr>,
                      \<lparr>parent = ''papers'', name = ''Foo.pdf''\<rparr>|}
         \<lparr>parent = ''papers'', name = ''scan.pdf''\<rparr> ''Foo.pdf'' False) = Inr t)
   \<and> snd (safe_rename {|\<lparr>parent = ''papers'', name = ''scan.pdf''\<rparr>,
                      \<lparr>parent = ''papers'', name = ''Foo.pdf''\<rparr>|}
         \<lparr>parent = ''papers'', name = ''scan.pdf''\<rparr> ''Foo.pdf'' False)
     = {|\<lparr>parent = ''papers'', name = ''Foo (1).pdf''\<rparr>, \<lparr>parent = ''papers'', name = ''Foo.pdf''\<rparr>|}"
proof -
  have wet: "snd (safe_rename {|\<lparr>parent = ''papers'', name = ''scan.pdf''\<rparr>,
                      \<lparr>parent = ''papers'', name = ''Foo.pdf''\<rparr>|}
         \<lparr>parent = ''papers'', name = ''scan.pdf''\<rparr> ''Foo.pdf'' False)
     = {|\<lparr>parent = ''papers'', name = ''Foo (1).pdf''\<rparr>, \<lparr>parent = ''papers'', name = ''Foo.pdf''\<rparr>|}"
    by (simp add: safe_rename_wet with_name_def exists_def stem_of_def
        suffix_of_def rfind_def candidate_def first_free.simps str_nat.simps digit_char_def Let_def)
  show ?thesis
    using safe_rename_dry_run
      [of "{|\<lparr>parent = ''papers'', name = ''scan.pdf''\<rparr>, \<lparr>parent = ''papers'', name = ''Foo.pdf''\<rparr>|}"
          "\<lparr>parent = ''papers'', name = ''scan.pdf''\<rparr>" "''Foo.pdf''"] wet
    by (simp add: exists_def)
qed

subsection \<open>The filename composer\<close>

lemma rstrip_length: "length (rstrip s) \<le> length s"
  unfolding rstrip_def by (metis length_dropWhile_le length_rev)

lemma truncate_filename_length:
  "0 \<le> max_len \<Longrightarrow> length (truncate_filename nm max_len) \<le> nat max_len"
proof (cases "int (length nm) \<le> max_len")
  case True
  then show ?thesis by (simp add: truncate_filename_def)
next
  case False
  assume "0 \<le> max_len"
  with False have "length (slice_to nm max_len) \<le> nat max_len"
    by (simp add: slice_to_def)
  with False rstrip_length [of "slice_to nm max_len"] show ?thesis
    by (simp add: truncate_filename_def)
qed

text \<open>
  X1. Whatever the publisher, the title and the first author are, the composed name
  has at most 180 characters.
\<close>

theorem compose_name_length: "length (compose_name pub ttl auth) \<le> 180"
  using truncate_filename_length [of 180] by (simp add: compose_name_def Let_def)

text \<open>
  X2. When the sanitized publisher, the sanitized title and the initials have
  together at most 170 characters, the composed name is
  \<open>"{publisher} - {title} - {initials}.pdf"\<close>, with the defaults \<open>Unknown Publisher\<close>,
  \<open>Untitled\<close> and \<open>Unknown Author\<close> for a missing or empty field.
\<close>

theorem compose_name_short:
  "length (sanitize (Str (or_else pub ''Unknown Publisher'')))
     + length (sanitize (Str (or_else ttl ''Untitled'')))
     + length (to_initials (or_else auth ''Unknown Author'')) \<le> 170
   \<Longrightarrow> compose_name pub ttl auth
       = sanitize (Str (or_else pub ''Unknown Publisher'')) @ '' - ''
         @ sanitize (Str (or_else ttl ''Untitled'')) @ '' - ''
         @ to_initials (or_else auth ''Unknown Author'') @ ''.pdf''"
  by (simp add: compose_name_def Let_def truncate_filename_def)

text \<open>The publisher \<open>ACME\<close>, a short title with a colon and the author \<open>Jane Doe\<close>.\<close>

theorem compose_name_short_witness:
  "length (sanitize (Str (or_else (Some ''ACME'') ''Unknown Publisher'')))
     + length (sanitize (Str (or_else (Some ''A Short: Title'') ''Untitled'')))
     + length (to_initials (or_else (Some ''Jane Doe'') ''Unknown Author'')) \<le> 170
   \<and> compose_name (Some ''ACME'') (Some ''A Short: Title'') (Some ''Jane Doe'')
       = ''ACME - A Short Title - JD.pdf''"
proof -
  have h: "length (sanitize (Str (or_else (Some ''ACME'') ''Unknown Publisher'')))
     + length (sanitize (Str (or_else (Some ''A Short: Title'') ''Untitled'')))
     + length (to_initials (or_else (Some ''Jane Doe'') ''Unknown Author'')) \<le> 170"
    by code_simp
  have v: "sanitize (Str (or_else (Some ''ACME'') ''Unknown Publisher'')) @ '' - ''
         @ sanitize (Str (or_else (Some ''A Short: Title'') ''Untitled'')) @ '' - ''
         @ to_initials (or_else (Some ''Jane Doe'') ''Unknown Author'') @ ''.pdf''
       = ''ACME - A Short Title - JD.pdf''"
    by code_simp
  from compose_name_short [OF h] v h show ?thesis by simp
qed

text \<open>
  X3. The initials of the empty string are \<open>NA\<close>, those of \<open>Jane Q. Public\<close> are
  \<open>JQP\<close>, and an e-mail address alone gives \<open>NA\<close>.
\<close>

theorem to_initials_examples:
  "to_initials [] = ''NA'' \<and> to_initials ''Jane Q. Public'' = ''JQP''
   \<and> to_initials ''jane.doe@example.com'' = ''NA''"
  by code_simp

text \<open>
  C6. The composed name is the truncation of
  \<open>"{publisher} - {title} - {initials}.pdf"\<close> to 180 characters, and the truncation
  cuts the end of the string. For the publisher \<open>ACME\<close>, a title of 200 letters
  \<open>a\<close> and the author \<open>Jane Doe\<close> the result is \<open>ACME - \<close> followed by 173 letters \<open>a\<close>:
  it has 180 characters and does not end in \<open>.pdf\<close> (the initials are cut as well).
\<close>

theorem compose_name_long_title:
  "compose_name (Some ''ACME'') (Some (replicate 200 (CHR ''a''))) (Some ''Jane Doe'')
     = ''ACME - '' @ replicate 173 (CHR ''a'')
   \<and> length (compose_name (Some ''ACME'') (Some (replicate 200 (CHR ''a''))) (Some ''Jane Doe'')) = 180
   \<and> (\<nexists>front. compose_name (Some ''ACME'') (Some (replicate 200 (CHR ''a''))) (Some ''Jane Doe'')
         = front @ ''.pdf'')"
proof -
  have e: "compose_name (Some ''ACME'') (Some (replicate 200 (CHR ''a''))) (Some ''Jane Doe'')
     = ''ACME - '' @ replicate 173 (CHR ''a'')"
    by code_simp
  have l: "last (''ACME - '' @ replicate 173 (CHR ''a'')) = CHR ''a''"
    by simp
  have "''ACME - '' @ replicate 173 (CHR ''a'') \<noteq> front @ ''.pdf''" for front
  proof
    assume "''ACME - '' @ replicate 173 (CHR ''a'') = front @ ''.pdf''"
    then have "last (''ACME - '' @ replicate 173 (CHR ''a'')) = last (front @ ''.pdf'')"
      by (rule arg_cong)
    with l show False by simp
  qed
  with e show ?thesis by simp
qed

subsection \<open>The identifier extractor\<close>

lemma match_at_lit:
  "match_at (lit c # its) prev s =
     (case s of [] \<Rightarrow> None
      | x # xs \<Rightarrow> if x = c then map_option Suc (match_at its (Some x) xs) else None)"
  by (cases s) (auto simp: lit_def max_count_def last_char_def option.map_comp comp_def
      split: option.splits)

lemma try_counts_only_top:
  "(\<And>m. lo \<le> m \<Longrightarrow> m < n \<Longrightarrow> k m = None) \<Longrightarrow>
     try_counts k lo n = (if lo \<le> n then k n else None)"
proof (induction n)
  case 0
  show ?case by simp
next
  case (Suc n)
  have "try_counts k lo n = (if lo \<le> n then k n else None)"
    by (rule Suc.IH) (simp add: Suc.prems)
  moreover have "lo \<le> n \<Longrightarrow> k n = None"
    by (rule Suc.prems) simp_all
  ultimately show ?case
    by (auto split: option.splits)
qed

lemma drop_in_takeWhile:
  "m < length (takeWhile p s) \<Longrightarrow> \<exists>x xs. drop m s = x # xs \<and> p x"
proof -
  assume m: "m < length (takeWhile p s)"
  then have "m < length s"
    using length_takeWhile_le [of p s] by simp
  then have "drop m s = s ! m # drop (Suc m) s"
    by (simp add: Cons_nth_drop_Suc)
  moreover from m have "p (s ! m)"
    by (metis nth_mem set_takeWhileD takeWhile_nth)
  ultimately show ?thesis by blast
qed

lemma slash_not_digit: "\<not> is_digit (CHR ''/'')"
  by (simp add: is_digit_def code_point_def)

lemma match_at_doi_tail:
  "match_at [Rep is_digit 4 (Some 9), lit (CHR ''/''), Rep is_doi_char 1 None] prev s
     = digits_then_suffix s"
proof -
  let ?k = "\<lambda>n. map_option (\<lambda>m. n + m)
     (match_at [lit (CHR ''/''), Rep is_doi_char 1 None] (last_char prev (take n s)) (drop n s))"
  let ?n = "max_count is_digit (Some 9) s"
  have below: "?k m = None" if "m < ?n" for m
  proof -
    from that have "m < length (takeWhile is_digit s)" by (simp add: max_count_def)
    then obtain x xs where "drop m s = x # xs" "is_digit x"
      using drop_in_takeWhile by blast
    then show ?thesis
      using slash_not_digit by (auto simp: match_at_lit simp del: match_at.simps)
  qed
  have m: "match_at [Rep is_digit 4 (Some 9), lit (CHR ''/''), Rep is_doi_char 1 None] prev s
      = try_counts ?k 4 ?n"
    by simp
  have t: "try_counts ?k 4 ?n = (if 4 \<le> ?n then ?k ?n else None)"
    by (rule try_counts_only_top) (rule below)
  have main: "match_at [Rep is_digit 4 (Some 9), lit (CHR ''/''), Rep is_doi_char 1 None] prev s
      = (if 4 \<le> ?n then ?k ?n else None)"
    by (simp only: m t)
  show ?thesis
  proof (cases "length (takeWhile is_digit s) \<le> 9")
    case True
    let ?K = "length (takeWhile is_digit s)"
    from True have n: "?n = ?K" by (simp add: max_count_def)
    have kK: "?k ?K = (case drop ?K s of
                 [] \<Rightarrow> None
               | c # t \<Rightarrow>
                   if c = CHR ''/'' \<and> takeWhile is_doi_char t \<noteq> []
                   then Some (?K + 1 + length (takeWhile is_doi_char t)) else None)"
      by (auto simp: match_at_lit match_at_last_rep Suc_le_eq
            simp del: match_at.simps split: list.splits)
    have "match_at [Rep is_digit 4 (Some 9), lit (CHR ''/''), Rep is_doi_char 1 None] prev s
      = (if 4 \<le> ?K then ?k ?K else None)"
      using main n by (simp only:)
    with True show ?thesis
      by (simp only: kK digits_then_suffix_def Let_def) simp
  next
    case False
    then have n: "?n = 9" by (simp add: max_count_def)
    have "9 < length (takeWhile is_digit s)" using False by simp
    then obtain x xs where "drop 9 s = x # xs" "is_digit x"
      using drop_in_takeWhile by blast
    then have "?k 9 = None"
      using slash_not_digit by (auto simp: match_at_lit simp del: match_at.simps)
    with False show ?thesis
      unfolding main n by (simp add: digits_then_suffix_def Let_def)
  qed
qed

lemma match_at_doi_tail_Suc:
  "match_at [Rep is_digit 4 (Some 9), lit (CHR ''/''), Rep is_doi_char (Suc 0) None] prev s
     = digits_then_suffix s"
  using match_at_doi_tail [of prev s] by (simp only: One_nat_def)

lemma match_at_doi: "match_at DOI_PATTERN prev s = doi_match_length s"
proof -
  have "match_at DOI_PATTERN prev s =
      match_at (lit (CHR ''1'') # lit (CHR ''0'') # lit (CHR ''.'') #
        [Rep is_digit 4 (Some 9), lit (CHR ''/''), Rep is_doi_char 1 None]) prev s"
    by (simp add: DOI_PATTERN_def)
  also have "\<dots> = doi_match_length s"
    by (auto simp: match_at_lit match_at_doi_tail_Suc doi_match_length_def option.map_comp comp_def
          numeral_3_eq_3 simp del: match_at.simps split: list.splits option.splits)
  finally show ?thesis .
qed

lemma dts_fields:
  assumes "digits_then_suffix r = Some m"
  shows "4 \<le> length (takeWhile is_digit r) \<and> length (takeWhile is_digit r) \<le> 9
    \<and> (\<exists>t. drop (length (takeWhile is_digit r)) r = CHR ''/'' # t
          \<and> takeWhile is_doi_char t \<noteq> []
          \<and> m = length (takeWhile is_digit r) + 1 + length (takeWhile is_doi_char t))"
proof -
  let ?K = "length (takeWhile is_digit r)"
  have K: "4 \<le> ?K \<and> ?K \<le> 9"
    using assms unfolding digits_then_suffix_def Let_def by (simp split: if_splits)
  with assms have c: "(case drop ?K r of
                 [] \<Rightarrow> None
               | c # t \<Rightarrow>
                   if c = CHR ''/'' \<and> takeWhile is_doi_char t \<noteq> []
                   then Some (?K + 1 + length (takeWhile is_doi_char t)) else None) = Some m"
    unfolding digits_then_suffix_def Let_def by simp
  then obtain c t where d: "drop ?K r = c # t"
    by (cases "drop ?K r") simp_all
  with c have "c = CHR ''/''" "takeWhile is_doi_char t \<noteq> []"
    "m = ?K + 1 + length (takeWhile is_doi_char t)"
    by (simp_all split: if_splits)
  with d K show ?thesis by simp
qed

lemma digits_then_suffix_sound:
  assumes "digits_then_suffix r = Some m"
  shows "m \<le> length r \<and> (\<exists>ds ts. take m r = ds @ ''/'' @ ts
        \<and> 4 \<le> length ds \<and> length ds \<le> 9 \<and> (\<forall>d \<in> set ds. is_digit d)
        \<and> ts \<noteq> [] \<and> (\<forall>t \<in> set ts. is_doi_char t))"
proof -
  define ds where "ds = takeWhile is_digit r"
  from dts_fields [OF assms] obtain t where K: "4 \<le> length ds" "length ds \<le> 9"
    and d: "drop (length ds) r = CHR ''/'' # t"
    and ne: "takeWhile is_doi_char t \<noteq> []"
    and m: "m = length ds + 1 + length (takeWhile is_doi_char t)"
    unfolding ds_def by blast
  define ts where "ts = takeWhile is_doi_char t"
  have tk: "take (length ds) r = ds"
    unfolding ds_def by (rule takeWhile_eq_take [symmetric])
  have tt: "take (length ts) t = ts"
    unfolding ts_def by (rule takeWhile_eq_take [symmetric])
  have "take m r = take (length ds) r @ take (1 + length ts) (drop (length ds) r)"
    unfolding m ts_def [symmetric] by (simp only: take_add add.assoc)
  also have "\<dots> = ds @ take (1 + length ts) (CHR ''/'' # t)"
    by (simp only: tk d)
  also have "\<dots> = ds @ ''/'' @ ts"
    by (simp add: tt)
  finally have eq: "take m r = ds @ ''/'' @ ts" .
  have "length (drop (length ds) r) = Suc (length t)"
    by (simp only: d length_Cons)
  then have "length r = length ds + Suc (length t)"
    by simp
  moreover have "length ts \<le> length t"
    unfolding ts_def by (rule length_takeWhile_le)
  ultimately have le: "m \<le> length r"
    unfolding m ts_def [symmetric] by simp
  have "\<forall>x \<in> set ds. is_digit x"
    unfolding ds_def by (auto dest: set_takeWhileD)
  moreover have "\<forall>x \<in> set ts. is_doi_char x"
    unfolding ts_def by (auto dest: set_takeWhileD)
  moreover have "ts \<noteq> []" using ne by (simp add: ts_def)
  ultimately show ?thesis using K eq le by blast
qed

lemma doi_match_length_sound:
  assumes "doi_match_length s = Some n"
  shows "n \<le> length s \<and> doi_token (take n s)"
proof -
  from assms obtain c1 c2 c3 r where s0: "s = c1 # c2 # c3 # r"
    unfolding doi_match_length_def by (simp split: list.splits)
  with assms have c: "c1 = CHR ''1'' \<and> c2 = CHR ''0'' \<and> c3 = CHR ''.''"
    and mm: "map_option (\<lambda>n. n + 3) (digits_then_suffix r) = Some n"
    unfolding doi_match_length_def by (simp_all split: if_splits)
  from mm obtain m where m: "digits_then_suffix r = Some m" and n: "n = m + 3"
    by (cases "digits_then_suffix r") auto
  from s0 c have s: "s = ''10.'' @ r" by simp
  from digits_then_suffix_sound [OF m] obtain ds ts where
    "m \<le> length r" "take m r = ds @ ''/'' @ ts" "4 \<le> length ds" "length ds \<le> 9"
    "\<forall>d \<in> set ds. is_digit d" "ts \<noteq> []" "\<forall>t \<in> set ts. is_doi_char t"
    by blast
  moreover have "take n s = ''10.'' @ take m r" by (simp add: s n numeral_3_eq_3)
  moreover have "n \<le> length s" using \<open>m \<le> length r\<close> by (simp add: s n)
  ultimately show ?thesis
    unfolding doi_token_def by (intro conjI exI [of _ ds] exI [of _ ts]) simp_all
qed

lemma digits_then_suffix_complete:
  assumes "4 \<le> length ds" "length ds \<le> 9" "\<forall>d \<in> set ds. is_digit d"
    "ts \<noteq> []" "\<forall>t \<in> set ts. is_doi_char t"
  shows "\<exists>m. digits_then_suffix (ds @ ''/'' @ ts @ r) = Some m \<and> length (ds @ ''/'' @ ts) \<le> m"
proof -
  have tw: "takeWhile is_digit (ds @ ''/'' @ ts @ r) = ds"
    using assms(3) slash_not_digit by simp
  have tt: "takeWhile is_doi_char (ts @ r) = ts @ takeWhile is_doi_char r"
    using assms(5) by simp
  have "digits_then_suffix (ds @ ''/'' @ ts @ r)
      = Some (length ds + 1 + length (ts @ takeWhile is_doi_char r))"
    unfolding digits_then_suffix_def Let_def tw using assms(1,2,4) by (simp add: tt)
  then show ?thesis by simp
qed

lemma doi_match_length_complete:
  assumes "doi_token w"
  shows "\<exists>n. doi_match_length (w @ r) = Some n \<and> length w \<le> n"
proof -
  from assms obtain ds ts where w: "w = ''10.'' @ ds @ ''/'' @ ts"
    and h: "4 \<le> length ds" "length ds \<le> 9" "\<forall>d \<in> set ds. is_digit d"
    "ts \<noteq> []" "\<forall>t \<in> set ts. is_doi_char t"
    unfolding doi_token_def by blast
  from digits_then_suffix_complete [OF h, of r] obtain m where
    m: "digits_then_suffix (ds @ ''/'' @ ts @ r) = Some m" "length (ds @ ''/'' @ ts) \<le> m"
    by blast
  have "w @ r = CHR ''1'' # CHR ''0'' # CHR ''.'' # (ds @ ''/'' @ ts @ r)"
    by (simp add: w)
  then have "doi_match_length (w @ r) = Some (m + 3)"
    using m(1) by (simp add: doi_match_length_def)
  moreover have "length w \<le> m + 3" using m(2) by (simp add: w)
  ultimately show ?thesis by blast
qed

lemma re_search_doi_None:
  "re_search DOI_PATTERN prev s = None \<Longrightarrow> i \<le> length s \<Longrightarrow> doi_match_length (drop i s) = None"
proof (induction s arbitrary: prev i)
  case Nil
  then show ?case by (simp add: match_at_doi del: match_at.simps)
next
  case (Cons c cs)
  from Cons.prems(1) have here: "doi_match_length (c # cs) = None"
    and rest: "re_search DOI_PATTERN (Some c) cs = None"
    by (auto simp: match_at_doi simp del: match_at.simps split: option.splits)
  show ?case
  proof (cases i)
    case 0
    with here show ?thesis by simp
  next
    case (Suc j)
    with Cons.prems(2) Cons.IH [OF rest, of j] show ?thesis by simp
  qed
qed

lemma re_search_doi_Some:
  "re_search DOI_PATTERN prev s = Some (i, n) \<Longrightarrow>
     i \<le> length s \<and> doi_match_length (drop i s) = Some n
       \<and> (\<forall>j<i. doi_match_length (drop j s) = None)"
proof (induction s arbitrary: prev i)
  case Nil
  then show ?case by (auto simp: match_at_doi simp del: match_at.simps)
next
  case (Cons c cs)
  show ?case
  proof (cases "doi_match_length (c # cs)")
    case (Some m)
    with Cons.prems show ?thesis
      by (auto simp: match_at_doi simp del: match_at.simps)
  next
    case None
    with Cons.prems obtain i' where i': "i = Suc i'"
      and rest: "re_search DOI_PATTERN (Some c) cs = Some (i', n)"
      by (auto simp: match_at_doi simp del: match_at.simps)
    from Cons.IH [OF rest] have ih: "i' \<le> length cs" "doi_match_length (drop i' cs) = Some n"
      "\<forall>j<i'. doi_match_length (drop j cs) = None"
      by auto
    have "doi_match_length (drop j (c # cs)) = None" if "j < i" for j
      using that None ih(3) i' by (cases j) auto
    with ih i' show ?thesis by simp
  qed
qed

lemma or_else_empty: "or_else (Some s) [] = s"
  by (simp add: or_else_def)

lemma find_doi_unfold:
  "find_doi (Some text) =
     (case re_search DOI_PATTERN None text of
        None \<Rightarrow> None
      | Some (i, n) \<Rightarrow> Some (rstrip_chars '').,;]}>'' (take n (drop i text))))"
  by (simp only: find_doi_def Let_def or_else_empty)

lemma find_doi_None:
  assumes "find_doi (Some text) = None" and "text = pre @ w @ post"
  shows "\<not> doi_token w"
proof
  assume "doi_token w"
  then obtain n where n: "doi_match_length (w @ post) = Some n"
    using doi_match_length_complete by blast
  from assms(1) have "re_search DOI_PATTERN None text = None"
    unfolding find_doi_unfold by (simp split: option.splits prod.splits)
  then have "doi_match_length (drop (length pre) text) = None"
    by (rule re_search_doi_None) (simp add: assms(2))
  with n show False by (simp add: assms(2))
qed

lemma find_doi_Some:
  assumes "find_doi (Some text) = Some d"
  shows "\<exists>pre w post. text = pre @ w @ post \<and> doi_token w
           \<and> d = rstrip_chars '').,;]}>'' w
           \<and> (\<forall>pre' w' post'. text = pre' @ w' @ post' \<and> doi_token w' \<longrightarrow>
                 length pre \<le> length pre'
                 \<and> (length pre' = length pre \<longrightarrow> length w' \<le> length w))"
proof -
  from assms obtain i n where s: "re_search DOI_PATTERN None text = Some (i, n)"
    and d: "d = rstrip_chars '').,;]}>'' (take n (drop i text))"
    unfolding find_doi_unfold by (auto split: option.splits prod.splits)
  from re_search_doi_Some [OF s] have i: "i \<le> length text"
    and m: "doi_match_length (drop i text) = Some n"
    and first: "\<forall>j<i. doi_match_length (drop j text) = None"
    by auto
  from doi_match_length_sound [OF m] have n: "n \<le> length (drop i text)"
    and tok: "doi_token (take n (drop i text))"
    by auto
  let ?pre = "take i text" and ?w = "take n (drop i text)" and ?post = "drop n (drop i text)"
  have split: "text = ?pre @ ?w @ ?post" by (simp only: append_take_drop_id)
  have lpre: "length ?pre = i" using i by simp
  have lw: "length ?w = n" using n by simp
  have later: "length ?pre \<le> length pre'
        \<and> (length pre' = length ?pre \<longrightarrow> length w' \<le> length ?w)"
    if t: "text = pre' @ w' @ post'" and w': "doi_token w'" for pre' w' post'
  proof -
    from doi_match_length_complete [OF w', of post'] obtain n' where
      n': "doi_match_length (w' @ post') = Some n'" "length w' \<le> n'"
      by blast
    have dr: "drop (length pre') text = w' @ post'" by (simp add: t)
    have "\<not> length pre' < i"
      using first n'(1) dr by (metis option.distinct(1))
    then have a: "length ?pre \<le> length pre'" using lpre by simp
    have "length w' \<le> length ?w" if "length pre' = length ?pre"
    proof -
      from that lpre have "drop i text = w' @ post'" using dr by simp
      with m n'(1) have "n' = n" by simp
      with n'(2) lw show ?thesis by simp
    qed
    with a show ?thesis by blast
  qed
  show ?thesis
    by (rule exI [of _ ?pre], rule exI [of _ ?w], rule exI [of _ ?post])
       (use split tok d later in blast)
qed

lemma doi_token_starts: "doi_token w \<Longrightarrow> \<exists>r. w = CHR ''1'' # r"
  unfolding doi_token_def by auto

lemma rstrip_chars_keeps_head:
  assumes "w = c # r" and "c \<notin> set chars"
  shows "rstrip_chars chars w \<noteq> []"
proof
  assume "rstrip_chars chars w = []"
  then have "dropWhile (\<lambda>x. x \<in> set chars) (rev w) = []"
    by (simp add: rstrip_chars_def)
  then have "\<forall>x \<in> set (rev w). x \<in> set chars"
    by simp
  with assms show False by simp
qed

lemma find_doi_nonempty:
  assumes "find_doi (Some text) = Some d"
  shows "d \<noteq> []"
proof -
  from find_doi_Some [OF assms] obtain w where "doi_token w" "d = rstrip_chars '').,;]}>'' w"
    by blast
  moreover from this obtain r where "w = CHR ''1'' # r"
    using doi_token_starts by blast
  ultimately show ?thesis
    using rstrip_chars_keeps_head [of w "CHR ''1''" r "'').,;]}>''"] by simp
qed

text \<open>
  The specification lists the opening brace among the stripped characters, the
  code does not: no match holds a brace, so the two sets strip the same.
\<close>

lemma brace_not_doi_char: "\<not> is_doi_char (CHR ''{'') \<and> \<not> is_digit (CHR ''{'')"
  by (simp add: is_doi_char_def is_ascii_upper_def is_ascii_lower_def is_digit_def code_point_def)

lemma doi_token_no_brace: "doi_token w \<Longrightarrow> CHR ''{'' \<notin> set w"
  unfolding doi_token_def using brace_not_doi_char by auto

lemma rstrip_chars_extra:
  assumes "x \<notin> set w"
  shows "rstrip_chars (a @ x # b) w = rstrip_chars (a @ b) w"
proof -
  have "dropWhile (\<lambda>c. c \<in> set (a @ x # b)) (rev w) = dropWhile (\<lambda>c. c \<in> set (a @ b)) (rev w)"
    by (rule dropWhile_cong) (use assms in auto)
  then show ?thesis by (simp only: rstrip_chars_def)
qed

lemma doi_token_strip_brace:
  "doi_token w \<Longrightarrow> rstrip_chars ''){.,;]}>'' w = rstrip_chars '').,;]}>'' w"
  using rstrip_chars_extra [of "CHR ''{''" w "'')''" "''.,;]}>''"] doi_token_no_brace [of w]
  by simp

text \<open>
  C8. When \<open>find_doi\<close> returns nothing, no substring of the text matches the DOI
  pattern. When it returns \<open>d\<close>, the text has a substring \<open>w\<close> that matches the
  pattern, no match starts further left, no match at that position is longer, and
  \<open>d\<close> is \<open>w\<close> without its trailing characters of the set \<open>){.,;]}>\<close> (which is \<open>w\<close>
  without its trailing characters of the set \<open>).,;]}>\<close> of the code). In particular
  \<open>find_doi("see 10.1000/xyz123.")\<close> is \<open>"10.1000/xyz123"\<close>, and a text without
  identifier (also a missing text) gives \<open>None\<close>.
\<close>

theorem find_doi_first_match:
  "(case find_doi (Some text) of
      None \<Rightarrow> (\<forall>pre w post. text = pre @ w @ post \<longrightarrow> \<not> doi_token w)
    | Some d \<Rightarrow>
        (\<exists>pre w post. text = pre @ w @ post \<and> doi_token w
           \<and> d = rstrip_chars ''){.,;]}>'' w
           \<and> d = rstrip_chars '').,;]}>'' w
           \<and> (\<forall>pre' w' post'. text = pre' @ w' @ post' \<and> doi_token w' \<longrightarrow>
                 length pre \<le> length pre'
                 \<and> (length pre' = length pre \<longrightarrow> length w' \<le> length w))))
   \<and> find_doi (Some ''see 10.1000/xyz123.'') = Some ''10.1000/xyz123''
   \<and> find_doi (Some ''no identifier here'') = None
   \<and> find_doi None = None"
proof (intro conjI)
  show "case find_doi (Some text) of
      None \<Rightarrow> (\<forall>pre w post. text = pre @ w @ post \<longrightarrow> \<not> doi_token w)
    | Some d \<Rightarrow>
        (\<exists>pre w post. text = pre @ w @ post \<and> doi_token w
           \<and> d = rstrip_chars ''){.,;]}>'' w
           \<and> d = rstrip_chars '').,;]}>'' w
           \<and> (\<forall>pre' w' post'. text = pre' @ w' @ post' \<and> doi_token w' \<longrightarrow>
                 length pre \<le> length pre'
                 \<and> (length pre' = length pre \<longrightarrow> length w' \<le> length w)))"
  proof (cases "find_doi (Some text)")
    case None
    then show ?thesis using find_doi_None by auto
  next
    case (Some d)
    from find_doi_Some [OF Some] obtain pre w post where
      f: "text = pre @ w @ post" "doi_token w" "d = rstrip_chars '').,;]}>'' w"
        "\<forall>pre' w' post'. text = pre' @ w' @ post' \<and> doi_token w' \<longrightarrow>
                 length pre \<le> length pre'
                 \<and> (length pre' = length pre \<longrightarrow> length w' \<le> length w)"
      by blast
    from f(2,3) have "d = rstrip_chars ''){.,;]}>'' w"
      by (simp only: doi_token_strip_brace)
    with f have "\<exists>pre w post. text = pre @ w @ post \<and> doi_token w
           \<and> d = rstrip_chars ''){.,;]}>'' w
           \<and> d = rstrip_chars '').,;]}>'' w
           \<and> (\<forall>pre' w' post'. text = pre' @ w' @ post' \<and> doi_token w' \<longrightarrow>
                 length pre \<le> length pre'
                 \<and> (length pre' = length pre \<longrightarrow> length w' \<le> length w))"
      by blast
    with Some show ?thesis by (simp only: option.case)
  qed
  show "find_doi (Some ''see 10.1000/xyz123.'') = Some ''10.1000/xyz123''"
    by code_simp
  show "find_doi (Some ''no identifier here'') = None"
    by code_simp
  show "find_doi None = None"
    by code_simp
qed

text \<open>The general statement at the text \<open>see 10.1000/xyz123.\<close>\<close>

theorem find_doi_first_match_witness:
  "find_doi (Some ''see 10.1000/xyz123.'') = Some ''10.1000/xyz123''
   \<and> (\<exists>pre w post. ''see 10.1000/xyz123.'' = pre @ w @ post \<and> doi_token w
          \<and> ''10.1000/xyz123'' = rstrip_chars ''){.,;]}>'' w)"
proof -
  have e: "find_doi (Some ''see 10.1000/xyz123.'') = Some ''10.1000/xyz123''"
    by code_simp
  from find_doi_first_match [of "''see 10.1000/xyz123.''"] e
  have "\<exists>pre w post. ''see 10.1000/xyz123.'' = pre @ w @ post \<and> doi_token w
           \<and> ''10.1000/xyz123'' = rstrip_chars ''){.,;]}>'' w
           \<and> ''10.1000/xyz123'' = rstrip_chars '').,;]}>'' w
           \<and> (\<forall>pre' w' post'. ''see 10.1000/xyz123.'' = pre' @ w' @ post' \<and> doi_token w' \<longrightarrow>
                 length pre \<le> length pre'
                 \<and> (length pre' = length pre \<longrightarrow> length w' \<le> length w))"
    by (simp only: option.case)
  then show ?thesis using e by blast
qed

subsection \<open>The resolution pipeline\<close>

text \<open>
  The stem of a file name is not empty, and the two tests \<open>not x\<close> of an optional
  string.
\<close>

lemma stem_of_nonempty: "n \<noteq> [] \<Longrightarrow> stem_of n \<noteq> []"
  by (auto simp: stem_of_def Let_def)

lemma truthy_Some: "truthy (Some s) = (s \<noteq> [])"
  by (simp add: truthy_def)

lemma truthy_None: "\<not> truthy None"
  by (simp add: truthy_def)

text \<open>Each block keeps a field that holds a non-empty value, and only appends to the log.\<close>

lemma embedded_stage_title: "truthy (title st) \<Longrightarrow> title (embedded_stage doc st) = title st"
  by (simp add: embedded_stage_def Let_def split: option.splits)

lemma embedded_stage_first_author:
  "truthy (first_author st) \<Longrightarrow> first_author (embedded_stage doc st) = first_author st"
  by (simp add: embedded_stage_def Let_def split: option.splits)

lemma embedded_stage_publisher: "publisher (embedded_stage doc st) = publisher st"
  by (simp add: embedded_stage_def Let_def split: option.splits)

lemma embedded_stage_log: "\<exists>more. log (embedded_stage doc st) = log st @ more"
  by (simp add: embedded_stage_def Let_def split: option.splits)

lemma default_stage_title:
  "title (default_stage p st) = (if truthy (title st) then title st else Some (stem p))"
  by (simp add: default_stage_def Let_def)

lemma default_stage_first_author:
  "first_author (default_stage p st)
     = (if truthy (first_author st) then first_author st else Some ''Unknown Author'')"
  by (simp add: default_stage_def Let_def)

lemma default_stage_publisher:
  "publisher (default_stage p st)
     = (if truthy (publisher st) then publisher st else Some ''Unknown Publisher'')"
  by (simp add: default_stage_def Let_def)

lemma default_stage_log:
  "log (default_stage p st) =
     log st
     @ (if truthy (title st) then [] else [''fallback: title from filename''])
     @ (if truthy (first_author st) then [] else [''fallback: unknown author''])
     @ (if truthy (publisher st) then [] else [''fallback: unknown publisher''])"
  by (simp add: default_stage_def Let_def)

lemma crossref_fields_log: "\<exists>more. log (crossref_fields msg st) = log st @ more"
  by (simp add: crossref_fields_def Let_def split: option.splits list.splits)

lemma crossref_stage_local_only:
  "crossref_stage requests_get text_first True email st = st"
  by (simp add: crossref_stage_def)

lemma crossref_stage_no_doi:
  "find_doi (Some text_first) = None \<Longrightarrow>
     crossref_stage requests_get text_first False email st = st"
  by (simp add: crossref_stage_def)

lemma crossref_stage_failed:
  assumes "find_doi (Some text_first) = Some doi"
    and "query_crossref_by_doi requests_get doi email = Inl e"
  shows "crossref_stage requests_get text_first False email st
           = st\<lparr>log := log st @ [''found DOI '' @ doi, ''Crossref failed: '' @ e]\<rparr>"
  using assms find_doi_nonempty [OF assms(1)]
  by (simp add: crossref_stage_def Let_def)

lemma crossref_stage_found:
  assumes "find_doi (Some text_first) = Some doi"
  shows "\<exists>more. log (crossref_stage requests_get text_first False email st)
           = log st @ (''found DOI '' @ doi) # more"
proof (cases "query_crossref_by_doi requests_get doi email")
  case (Inl e)
  with assms show ?thesis by (simp add: crossref_stage_failed)
next
  case (Inr msg)
  obtain more where
    "log (crossref_fields msg (st\<lparr>log := log st @ [''found DOI '' @ doi]\<rparr>))
       = log (st\<lparr>log := log st @ [''found DOI '' @ doi]\<rparr>) @ more"
    using crossref_fields_log by blast
  with assms Inr find_doi_nonempty [OF assms] show ?thesis
    by (simp add: crossref_stage_def Let_def)
qed

lemma query_crossref_by_doi_failures:
  "(\<forall>url agent. requests_get url agent = Inl e) \<longrightarrow>
      query_crossref_by_doi requests_get doi email = Inl e"
  "(\<forall>url agent. requests_get url agent = Inr r) \<and> 400 \<le> status_code r \<and> status_code r < 600 \<longrightarrow>
      query_crossref_by_doi requests_get doi email = Inl (http_error r)"
  "(\<forall>url agent. requests_get url agent = Inr r) \<and> \<not> (400 \<le> status_code r \<and> status_code r < 600)
      \<and> body r = Malformed e \<longrightarrow>
      query_crossref_by_doi requests_get doi email = Inl e"
  by (simp_all add: query_crossref_by_doi_def Let_def)

lemma join_two: "\<exists>rest. join sep (x # y # zs) = x @ sep @ y @ rest"
  by (cases zs) auto

lemma process_pdf_result:
  "fitz_open pdf_path = Inr doc \<Longrightarrow>
     process_pdf fitz_open requests_get pdf_path local_only email
       = Inr (name pdf_path,
              compose_name (publisher (resolve requests_get doc pdf_path local_only email))
                (title (resolve requests_get doc pdf_path local_only email))
                (first_author (resolve requests_get doc pdf_path local_only email)),
              if join ''; '' (log (resolve requests_get doc pdf_path local_only email)) = []
              then ''ok''
              else join ''; '' (log (resolve requests_get doc pdf_path local_only email)))"
  by (simp add: process_pdf_def Let_def)

lemma resolve_log_grows:
  "\<exists>more. log (resolve requests_get doc pdf_path local_only email)
     = log (after_crossref requests_get doc local_only email) @ more"
proof -
  obtain a where "log (after_embedded requests_get doc local_only email)
      = log (after_crossref requests_get doc local_only email) @ a"
    unfolding after_embedded_def using embedded_stage_log by blast
  then show ?thesis
    by (simp add: resolve_def default_stage_log)
qed

lemma strip_all_space:
  assumes "\<forall>c \<in> set w. is_space c"
  shows "strip w = []"
proof -
  from assms have "dropWhile is_space w = []" by simp
  then show ?thesis
    by (simp only: strip_def rstrip_def rev.simps dropWhile.simps)
qed

lemma sample_text: "extract_visible_text sample_doc 2 = ''see 10.1000/xyz123.''"
  by (simp add: extract_visible_text_def sample_doc_def)

lemma sample_doi: "find_doi (Some (extract_visible_text sample_doc 2)) = Some ''10.1000/xyz123''"
  unfolding sample_text by code_simp

lemma sample_query:
  "query_crossref_by_doi unavailable ''10.1000/xyz123'' None = Inl ''503 Server Error''"
  by (simp add: query_crossref_by_doi_def unavailable_def Let_def)

lemma sample_after_crossref_local:
  "after_crossref unavailable sample_doc True None = initial_fields"
  by (simp add: after_crossref_def crossref_stage_local_only)

lemma sample_after_embedded_local:
  "after_embedded unavailable sample_doc True None
     = \<lparr>title = Some [], first_author = Some ''A. Smith'', publisher = None,
        log = [''title from embedded metadata'', ''author from embedded metadata'']\<rparr>"
  unfolding after_embedded_def sample_after_crossref_local
  by (simp add: embedded_stage_def initial_fields_def sample_doc_def Let_def truthy_def
      strip_def rstrip_def is_space_def)

lemma sample_resolve_local:
  "resolve unavailable sample_doc sample_path True None
     = \<lparr>title = Some ''scan'', first_author = Some ''A. Smith'',
        publisher = Some ''Unknown Publisher'',
        log = [''title from embedded metadata'', ''author from embedded metadata'',
               ''fallback: title from filename'', ''fallback: unknown publisher'']\<rparr>"
  unfolding resolve_def sample_after_embedded_local
  by (simp add: default_stage_def Let_def truthy_def sample_path_def stem_def stem_of_def
      rfind_def)

lemma sample_query_registered:
  "query_crossref_by_doi registered ''10.1000/xyz123'' None
     = Inr \<lparr>msg_title = Some [''A Study of Things''],
             msg_author = Some [\<lparr>given = Some ''Jane'', family = Some ''Doe''\<rparr>],
             msg_publisher = Some ''ACME''\<rparr>"
  by (simp add: query_crossref_by_doi_def registered_def Let_def)

lemma sample_after_crossref_registered:
  "after_crossref registered sample_doc False None
     = \<lparr>title = Some ''A Study of Things'', first_author = Some ''Jane Doe'',
        publisher = Some ''ACME'',
        log = [''found DOI 10.1000/xyz123'', ''title from Crossref'', ''author from Crossref'',
               ''publisher from Crossref'']\<rparr>"
  unfolding after_crossref_def
  by (simp add: crossref_stage_def sample_doi sample_query_registered Let_def
      crossref_fields_def initial_fields_def truthy_def strip_def rstrip_def is_space_def)

text \<open>
  C2. For a document that could be opened (so that \<open>process_pdf\<close> reaches
  \<open>compose_name\<close>), with a non-empty file name (the path of a file always has
  one): the title, the first author and the publisher are non-empty at the end. A field that is still unset (\<open>None\<close> or empty)
  after the Crossref and embedded-metadata blocks gets its default, the filename
  stem for the title, \<open>Unknown Author\<close> and \<open>Unknown Publisher\<close>, and the log holds the
  matching fallback entry.
\<close>

theorem resolve_fields_nonempty:
  assumes "name pdf_path \<noteq> []"
  shows "truthy (title (resolve requests_get doc pdf_path local_only email))
    \<and> truthy (first_author (resolve requests_get doc pdf_path local_only email))
    \<and> truthy (publisher (resolve requests_get doc pdf_path local_only email))
    \<and> (\<not> truthy (title (after_embedded requests_get doc local_only email)) \<longrightarrow>
         title (resolve requests_get doc pdf_path local_only email) = Some (stem pdf_path)
         \<and> ''fallback: title from filename''
              \<in> set (log (resolve requests_get doc pdf_path local_only email)))
    \<and> (\<not> truthy (first_author (after_embedded requests_get doc local_only email)) \<longrightarrow>
         first_author (resolve requests_get doc pdf_path local_only email) = Some ''Unknown Author''
         \<and> ''fallback: unknown author''
              \<in> set (log (resolve requests_get doc pdf_path local_only email)))
    \<and> (\<not> truthy (publisher (after_embedded requests_get doc local_only email)) \<longrightarrow>
         publisher (resolve requests_get doc pdf_path local_only email) = Some ''Unknown Publisher''
         \<and> ''fallback: unknown publisher''
              \<in> set (log (resolve requests_get doc pdf_path local_only email)))"
proof -
  have "stem pdf_path \<noteq> []"
    using assms by (simp add: stem_def stem_of_nonempty)
  then show ?thesis
    by (simp add: resolve_def default_stage_title default_stage_first_author
        default_stage_publisher default_stage_log truthy_Some)
qed

text \<open>The sample file, resolved locally: the publisher is filled by its default.\<close>

theorem resolve_fields_nonempty_witness:
  "name sample_path \<noteq> []
   \<and> truthy (title (resolve unavailable sample_doc sample_path True None))
   \<and> truthy (first_author (resolve unavailable sample_doc sample_path True None))
   \<and> \<not> truthy (publisher (after_embedded unavailable sample_doc True None))
   \<and> publisher (resolve unavailable sample_doc sample_path True None) = Some ''Unknown Publisher''
   \<and> ''fallback: unknown publisher''
        \<in> set (log (resolve unavailable sample_doc sample_path True None))"
proof -
  have n: "name sample_path \<noteq> []" by (simp add: sample_path_def)
  have p: "\<not> truthy (publisher (after_embedded unavailable sample_doc True None))"
    by (simp add: sample_after_embedded_local truthy_def)
  from resolve_fields_nonempty [OF n, of unavailable sample_doc True None] n p
  show ?thesis by simp
qed

text \<open>
  C3. When the document opens, a DOI is found and the Crossref query fails (it
  raises for a network error, for a status from 400 to 599 and for a malformed
  body, see \<open>query_crossref_by_doi_failures\<close>), \<open>process_pdf\<close> still returns its
  triple, and the triple is the one of the fallbacks: the new name is composed from
  the fields left by the embedded-metadata block and the defaults, and the returned
  log string is the joined log, which starts with the DOI entry followed by the
  failure entry (so it is never \<open>ok\<close>). The failure is logged after the DOI, no field
  is set by the first block, the embedded-metadata block and the defaults run on,
  and the failure entry is in the final log.
\<close>

theorem lookup_failure_is_logged:
  assumes "fitz_open pdf_path = Inr doc"
    and "find_doi (Some (extract_visible_text doc 2)) = Some doi"
    and "query_crossref_by_doi requests_get doi email = Inl e"
  shows "process_pdf fitz_open requests_get pdf_path False email
        = Inr (name pdf_path,
               compose_name (publisher (resolve requests_get doc pdf_path False email))
                 (title (resolve requests_get doc pdf_path False email))
                 (first_author (resolve requests_get doc pdf_path False email)),
               join ''; '' (log (resolve requests_get doc pdf_path False email)))
    \<and> (\<exists>more. log (resolve requests_get doc pdf_path False email)
          = (''found DOI '' @ doi) # (''Crossref failed: '' @ e) # more)
    \<and> (\<exists>rest. join ''; '' (log (resolve requests_get doc pdf_path False email))
          = ''found DOI '' @ doi @ ''; Crossref failed: '' @ e @ rest)
    \<and> (\<exists>new_name why. process_pdf fitz_open requests_get pdf_path False email
            = Inr (name pdf_path, new_name, why))
    \<and> after_crossref requests_get doc False email
        = initial_fields\<lparr>log := [''found DOI '' @ doi, ''Crossref failed: '' @ e]\<rparr>
    \<and> resolve requests_get doc pdf_path False email
        = default_stage pdf_path (embedded_stage doc
            (initial_fields\<lparr>log := [''found DOI '' @ doi, ''Crossref failed: '' @ e]\<rparr>))
    \<and> ''Crossref failed: '' @ e \<in> set (log (resolve requests_get doc pdf_path False email))"
proof -
  let ?R = "resolve requests_get doc pdf_path False email"
  have a: "after_crossref requests_get doc False email
        = initial_fields\<lparr>log := [''found DOI '' @ doi, ''Crossref failed: '' @ e]\<rparr>"
    unfolding after_crossref_def crossref_stage_failed [OF assms(2,3)]
    by (simp add: initial_fields_def)
  then have r: "?R = default_stage pdf_path (embedded_stage doc
            (initial_fields\<lparr>log := [''found DOI '' @ doi, ''Crossref failed: '' @ e]\<rparr>))"
    by (simp add: resolve_def after_embedded_def)
  obtain more where "log ?R = log (after_crossref requests_get doc False email) @ more"
    using resolve_log_grows by blast
  with a have lg: "log ?R = (''found DOI '' @ doi) # (''Crossref failed: '' @ e) # more"
    by simp
  then have l: "''Crossref failed: '' @ e \<in> set (log ?R)"
    by simp
  obtain rest where "join ''; '' ((''found DOI '' @ doi) # (''Crossref failed: '' @ e) # more)
      = (''found DOI '' @ doi) @ ''; '' @ (''Crossref failed: '' @ e) @ rest"
    using join_two by blast
  with lg have j: "join ''; '' (log ?R) = ''found DOI '' @ doi @ ''; Crossref failed: '' @ e @ rest"
    by simp
  then have ne: "join ''; '' (log ?R) \<noteq> []"
    by simp
  from process_pdf_result
    [where fitz_open = fitz_open and pdf_path = pdf_path and doc = doc
       and requests_get = requests_get and local_only = False and email = email] assms(1) ne
  have p: "process_pdf fitz_open requests_get pdf_path False email
        = Inr (name pdf_path,
               compose_name (publisher ?R) (title ?R) (first_author ?R),
               join ''; '' (log ?R))"
    by simp
  from p have "\<exists>new_name why. process_pdf fitz_open requests_get pdf_path False email
            = Inr (name pdf_path, new_name, why)"
    by blast
  with p lg j a r l show ?thesis by blast
qed

text \<open>
  The sample file with the service that answers 503: the title and the publisher
  come from the defaults, the author from the embedded metadata, and the returned
  log string reports the failure.
\<close>

theorem lookup_failure_is_logged_witness:
  "find_doi (Some (extract_visible_text sample_doc 2)) = Some ''10.1000/xyz123''
   \<and> query_crossref_by_doi unavailable ''10.1000/xyz123'' None = Inl ''503 Server Error''
   \<and> process_pdf (\<lambda>p. Inr sample_doc) unavailable sample_path False None
       = Inr (''scan.pdf'', ''Unknown Publisher - scan - AS.pdf'',
              ''found DOI 10.1000/xyz123; Crossref failed: 503 Server Error; title from embedded metadata; author from embedded metadata; fallback: title from filename; fallback: unknown publisher'')
   \<and> (\<exists>new_name why. process_pdf (\<lambda>p. Inr sample_doc) unavailable sample_path False None
          = Inr (name sample_path, new_name, why))
   \<and> ''Crossref failed: 503 Server Error''
        \<in> set (log (resolve unavailable sample_doc sample_path False None))"
proof -
  let ?R = "resolve unavailable sample_doc sample_path False None"
  have o: "(\<lambda>p. Inr sample_doc) sample_path = (Inr sample_doc :: string + document)"
    by simp
  from lookup_failure_is_logged [OF o sample_doi sample_query, of sample_path]
  have "process_pdf (\<lambda>p. Inr sample_doc) unavailable sample_path False None
          = Inr (name sample_path,
                 compose_name (publisher ?R) (title ?R) (first_author ?R),
                 join ''; '' (log ?R))
     \<and> (\<exists>new_name why. process_pdf (\<lambda>p. Inr sample_doc) unavailable sample_path False None
          = Inr (name sample_path, new_name, why))
     \<and> ''Crossref failed: '' @ ''503 Server Error'' \<in> set (log ?R)"
    by blast
  then have t: "process_pdf (\<lambda>p. Inr sample_doc) unavailable sample_path False None
          = Inr (name sample_path,
                 compose_name (publisher ?R) (title ?R) (first_author ?R),
                 join ''; '' (log ?R))
     \<and> (\<exists>new_name why. process_pdf (\<lambda>p. Inr sample_doc) unavailable sample_path False None
          = Inr (name sample_path, new_name, why))
     \<and> ''Crossref failed: 503 Server Error'' \<in> set (log ?R)"
    by simp
  have n: "name sample_path = ''scan.pdf''"
    by (simp add: sample_path_def)
  have c: "compose_name (publisher ?R) (title ?R) (first_author ?R)
      = ''Unknown Publisher - scan - AS.pdf''"
    by code_simp
  have j: "join ''; '' (log ?R)
      = ''found DOI 10.1000/xyz123; Crossref failed: 503 Server Error; title from embedded metadata; author from embedded metadata; fallback: title from filename; fallback: unknown publisher''"
    by code_simp
  from t n c j have "process_pdf (\<lambda>p. Inr sample_doc) unavailable sample_path False None
       = Inr (''scan.pdf'', ''Unknown Publisher - scan - AS.pdf'',
              ''found DOI 10.1000/xyz123; Crossref failed: 503 Server Error; title from embedded metadata; author from embedded metadata; fallback: title from filename; fallback: unknown publisher'')"
    by simp
  with t sample_doi sample_query show ?thesis by blast
qed

text \<open>
  C10. When the embedded title is present, not empty, and consists of white space
  only, and the title is unset after the first block, the embedded-metadata block
  stores the empty string and logs \<open>title from embedded metadata\<close>; the default block
  then replaces it by the filename stem and logs \<open>fallback: title from filename\<close>, so
  the log holds both entries. The same holds for the author, with
  \<open>Unknown Author\<close>.
\<close>

theorem whitespace_metadata_falls_back:
  assumes "metadata doc = Some m"
  shows "(m ''title'' = Some w \<and> w \<noteq> [] \<and> (\<forall>c \<in> set w. is_space c)
          \<and> \<not> truthy (title (after_crossref requests_get doc local_only email)) \<longrightarrow>
        title (after_embedded requests_get doc local_only email) = Some []
        \<and> title (resolve requests_get doc pdf_path local_only email) = Some (stem pdf_path)
        \<and> ''title from embedded metadata''
             \<in> set (log (resolve requests_get doc pdf_path local_only email))
        \<and> ''fallback: title from filename''
             \<in> set (log (resolve requests_get doc pdf_path local_only email)))
    \<and> (m ''author'' = Some w \<and> w \<noteq> [] \<and> (\<forall>c \<in> set w. is_space c)
          \<and> \<not> truthy (first_author (after_crossref requests_get doc local_only email)) \<longrightarrow>
        first_author (after_embedded requests_get doc local_only email) = Some []
        \<and> first_author (resolve requests_get doc pdf_path local_only email) = Some ''Unknown Author''
        \<and> ''author from embedded metadata''
             \<in> set (log (resolve requests_get doc pdf_path local_only email))
        \<and> ''fallback: unknown author''
             \<in> set (log (resolve requests_get doc pdf_path local_only email)))"
proof (intro conjI impI)
  let ?s1 = "after_crossref requests_get doc local_only email"
  assume h: "m ''title'' = Some w \<and> w \<noteq> [] \<and> (\<forall>c \<in> set w. is_space c) \<and> \<not> truthy (title ?s1)"
  then have sw: "strip w = []"
    by (simp add: strip_all_space)
  from h assms have t: "title (embedded_stage doc ?s1) = Some []"
    by (simp add: embedded_stage_def Let_def sw split: option.splits)
  from h assms have l: "''title from embedded metadata'' \<in> set (log (embedded_stage doc ?s1))"
    by (simp add: embedded_stage_def Let_def sw split: option.splits)
  show "title (after_embedded requests_get doc local_only email) = Some []"
    using t by (simp add: after_embedded_def)
  show "title (resolve requests_get doc pdf_path local_only email) = Some (stem pdf_path)"
    using t by (simp add: resolve_def after_embedded_def default_stage_title truthy_def)
  show "''title from embedded metadata''
          \<in> set (log (resolve requests_get doc pdf_path local_only email))"
    using l by (simp add: resolve_def after_embedded_def default_stage_log)
  show "''fallback: title from filename''
          \<in> set (log (resolve requests_get doc pdf_path local_only email))"
    using t by (simp add: resolve_def after_embedded_def default_stage_log truthy_def)
next
  let ?s1 = "after_crossref requests_get doc local_only email"
  assume h: "m ''author'' = Some w \<and> w \<noteq> [] \<and> (\<forall>c \<in> set w. is_space c)
      \<and> \<not> truthy (first_author ?s1)"
  then have sw: "strip w = []"
    by (simp add: strip_all_space)
  from h assms have t: "first_author (embedded_stage doc ?s1) = Some []"
    by (simp add: embedded_stage_def Let_def sw split: option.splits)
  from h assms have l: "''author from embedded metadata'' \<in> set (log (embedded_stage doc ?s1))"
    by (simp add: embedded_stage_def Let_def sw split: option.splits)
  show "first_author (after_embedded requests_get doc local_only email) = Some []"
    using t by (simp add: after_embedded_def)
  show "first_author (resolve requests_get doc pdf_path local_only email) = Some ''Unknown Author''"
    using t by (simp add: resolve_def after_embedded_def default_stage_first_author truthy_def)
  show "''author from embedded metadata''
          \<in> set (log (resolve requests_get doc pdf_path local_only email))"
    using l by (simp add: resolve_def after_embedded_def default_stage_log)
  show "''fallback: unknown author''
          \<in> set (log (resolve requests_get doc pdf_path local_only email))"
    using t by (simp add: resolve_def after_embedded_def default_stage_log truthy_def)
qed

text \<open>The sample file, whose embedded title is three blanks.\<close>

theorem whitespace_metadata_falls_back_witness:
  "metadata sample_doc = Some [''title'' \<mapsto> ''   '', ''author'' \<mapsto> ''A. Smith'']
   \<and> [''title'' \<mapsto> ''   '', ''author'' \<mapsto> ''A. Smith''] ''title'' = Some ''   ''
   \<and> list_all is_space ''   ''
   \<and> \<not> truthy (title (after_crossref unavailable sample_doc True None))
   \<and> title (after_embedded unavailable sample_doc True None) = Some []
   \<and> title (resolve unavailable sample_doc sample_path True None) = Some ''scan''
   \<and> ''title from embedded metadata''
        \<in> set (log (resolve unavailable sample_doc sample_path True None))
   \<and> ''fallback: title from filename''
        \<in> set (log (resolve unavailable sample_doc sample_path True None))"
proof -
  have m: "metadata sample_doc = Some [''title'' \<mapsto> ''   '', ''author'' \<mapsto> ''A. Smith'']"
    by (simp add: sample_doc_def)
  have w: "[''title'' \<mapsto> ''   '', ''author'' \<mapsto> ''A. Smith''] ''title'' = Some ''   ''"
    by simp
  have s: "list_all is_space ''   ''" "\<forall>c \<in> set ''   ''. is_space c"
    by (simp_all add: is_space_def)
  have t: "\<not> truthy (title (after_crossref unavailable sample_doc True None))"
    by (simp add: sample_after_crossref_local initial_fields_def truthy_def)
  have st: "stem sample_path = ''scan''"
    by (simp add: stem_def stem_of_def rfind_def sample_path_def)
  from whitespace_metadata_falls_back
    [OF m, of "''   ''" unavailable True None sample_path] w s(2) t
  have "title (after_embedded unavailable sample_doc True None) = Some []
   \<and> title (resolve unavailable sample_doc sample_path True None) = Some (stem sample_path)
   \<and> ''title from embedded metadata''
        \<in> set (log (resolve unavailable sample_doc sample_path True None))
   \<and> ''fallback: title from filename''
        \<in> set (log (resolve unavailable sample_doc sample_path True None))"
    by blast
  with m w s(1) t st show ?thesis by simp
qed

text \<open>
  C1, as stated, fails: in the sample file the embedded-metadata block sets the
  title (to the empty string, with its log entry) and the default block overwrites
  it with the filename stem.
\<close>

theorem empty_embedded_title_overwritten:
  "title (after_crossref unavailable sample_doc True None) = None
   \<and> title (after_embedded unavailable sample_doc True None) = Some []
   \<and> title (after_embedded unavailable sample_doc True None)
       \<noteq> title (after_crossref unavailable sample_doc True None)
   \<and> title (resolve unavailable sample_doc sample_path True None) = Some ''scan''
   \<and> title (resolve unavailable sample_doc sample_path True None)
       \<noteq> title (after_embedded unavailable sample_doc True None)
   \<and> log (resolve unavailable sample_doc sample_path True None)
       = [''title from embedded metadata'', ''author from embedded metadata'',
          ''fallback: title from filename'', ''fallback: unknown publisher'']"
  by (simp add: sample_after_crossref_local sample_after_embedded_local sample_resolve_local
      initial_fields_def)

text \<open>
  C1, amended. A field that holds a non-empty value after one block is not changed
  by a later block: what Crossref gave is kept by the embedded-metadata block and
  by the defaults, what the embedded metadata gave is kept by the defaults, and
  the embedded-metadata block never touches the publisher. A title that is unset
  after the first two blocks becomes the filename stem.
\<close>

theorem filled_fields_are_kept:
  "(truthy (title (after_crossref requests_get doc local_only email)) \<longrightarrow>
      title (after_embedded requests_get doc local_only email)
        = title (after_crossref requests_get doc local_only email)
      \<and> title (resolve requests_get doc pdf_path local_only email)
        = title (after_crossref requests_get doc local_only email))
   \<and> (truthy (title (after_embedded requests_get doc local_only email)) \<longrightarrow>
      title (resolve requests_get doc pdf_path local_only email)
        = title (after_embedded requests_get doc local_only email))
   \<and> (truthy (first_author (after_crossref requests_get doc local_only email)) \<longrightarrow>
      first_author (after_embedded requests_get doc local_only email)
        = first_author (after_crossref requests_get doc local_only email)
      \<and> first_author (resolve requests_get doc pdf_path local_only email)
        = first_author (after_crossref requests_get doc local_only email))
   \<and> (truthy (first_author (after_embedded requests_get doc local_only email)) \<longrightarrow>
      first_author (resolve requests_get doc pdf_path local_only email)
        = first_author (after_embedded requests_get doc local_only email))
   \<and> publisher (after_embedded requests_get doc local_only email)
        = publisher (after_crossref requests_get doc local_only email)
   \<and> (truthy (publisher (after_crossref requests_get doc local_only email)) \<longrightarrow>
      publisher (resolve requests_get doc pdf_path local_only email)
        = publisher (after_crossref requests_get doc local_only email))
   \<and> (\<not> truthy (title (after_embedded requests_get doc local_only email)) \<longrightarrow>
      title (resolve requests_get doc pdf_path local_only email) = Some (stem pdf_path))"
  by (simp add: resolve_def after_embedded_def embedded_stage_title embedded_stage_first_author
      embedded_stage_publisher default_stage_title default_stage_first_author
      default_stage_publisher)

text \<open>The sample file with the service that answers with a full record.\<close>

theorem filled_fields_are_kept_witness:
  "truthy (title (after_crossref registered sample_doc False None))
   \<and> title (after_crossref registered sample_doc False None) = Some ''A Study of Things''
   \<and> title (after_embedded registered sample_doc False None) = Some ''A Study of Things''
   \<and> title (resolve registered sample_doc sample_path False None) = Some ''A Study of Things''
   \<and> truthy (first_author (after_crossref registered sample_doc False None))
   \<and> first_author (resolve registered sample_doc sample_path False None) = Some ''Jane Doe''
   \<and> truthy (publisher (after_crossref registered sample_doc False None))
   \<and> publisher (resolve registered sample_doc sample_path False None) = Some ''ACME''"
proof -
  have t: "truthy (title (after_crossref registered sample_doc False None))"
    "truthy (first_author (after_crossref registered sample_doc False None))"
    "truthy (publisher (after_crossref registered sample_doc False None))"
    by (simp_all add: sample_after_crossref_registered truthy_def)
  have v: "title (after_crossref registered sample_doc False None) = Some ''A Study of Things''"
    "first_author (after_crossref registered sample_doc False None) = Some ''Jane Doe''"
    "publisher (after_crossref registered sample_doc False None) = Some ''ACME''"
    by (simp_all add: sample_after_crossref_registered)
  from filled_fields_are_kept [of registered sample_doc False None sample_path] t v
  show ?thesis by simp
qed

text \<open>
  C4, as stated, fails: with local-only resolution the first page of the sample
  file holds a DOI, yet the log has no entry for it.
\<close>

theorem local_only_skips_extraction:
  "find_doi (Some (extract_visible_text sample_doc 2)) = Some ''10.1000/xyz123''
   \<and> ''found DOI 10.1000/xyz123''
        \<notin> set (log (resolve unavailable sample_doc sample_path True None))
   \<and> log (resolve unavailable sample_doc sample_path True None)
       = [''title from embedded metadata'', ''author from embedded metadata'',
          ''fallback: title from filename'', ''fallback: unknown publisher'']"
  by (simp add: sample_doi sample_resolve_local)

text \<open>
  C4, amended. With local-only resolution the whole first block is skipped: the
  text is not searched, nothing is logged for a DOI, and the result depends on
  the embedded metadata and the file name only. Without local-only the text is
  searched; when no DOI is found the block changes nothing (no lookup), and when
  one is found \<open>found DOI ...\<close> is the first entry of the log.
\<close>

theorem extraction_unless_local_only:
  "after_crossref requests_get doc True email = initial_fields
   \<and> resolve requests_get doc pdf_path True email
       = default_stage pdf_path (embedded_stage doc initial_fields)
   \<and> (find_doi (Some (extract_visible_text doc 2)) = None \<longrightarrow>
        after_crossref requests_get doc False email = initial_fields)
   \<and> (find_doi (Some (extract_visible_text doc 2)) = Some doi \<longrightarrow>
        (\<exists>more. log (resolve requests_get doc pdf_path False email)
           = (''found DOI '' @ doi) # more))"
proof (intro conjI impI)
  show a: "after_crossref requests_get doc True email = initial_fields"
    by (simp add: after_crossref_def crossref_stage_local_only)
  show "resolve requests_get doc pdf_path True email
       = default_stage pdf_path (embedded_stage doc initial_fields)"
    by (simp add: resolve_def after_embedded_def a)
  show "after_crossref requests_get doc False email = initial_fields"
    if "find_doi (Some (extract_visible_text doc 2)) = None"
    using that by (simp add: after_crossref_def crossref_stage_no_doi)
  show "\<exists>more. log (resolve requests_get doc pdf_path False email) = (''found DOI '' @ doi) # more"
    if "find_doi (Some (extract_visible_text doc 2)) = Some doi"
  proof -
    from crossref_stage_found [OF that, of requests_get email initial_fields]
    obtain a where "log (after_crossref requests_get doc False email) = (''found DOI '' @ doi) # a"
      by (auto simp: after_crossref_def initial_fields_def)
    moreover obtain b where "log (resolve requests_get doc pdf_path False email)
        = log (after_crossref requests_get doc False email) @ b"
      using resolve_log_grows by blast
    ultimately show ?thesis by simp
  qed
qed

text \<open>The sample file without local-only: the DOI opens the log.\<close>

theorem extraction_unless_local_only_witness:
  "find_doi (Some (extract_visible_text sample_doc 2)) = Some ''10.1000/xyz123''
   \<and> (\<exists>more. log (resolve unavailable sample_doc sample_path False None)
          = ''found DOI 10.1000/xyz123'' # more)
   \<and> after_crossref unavailable sample_doc True None = initial_fields"
proof -
  from extraction_unless_local_only
    [of unavailable sample_doc None sample_path "''10.1000/xyz123''"] sample_doi
  have "(\<exists>more. log (resolve unavailable sample_doc sample_path False None)
          = (''found DOI '' @ ''10.1000/xyz123'') # more)
     \<and> after_crossref unavailable sample_doc True None = initial_fields"
    by blast
  with sample_doi show ?thesis by simp
qed

end
